theory Spec2Isabelle
  imports Complex_Main
begin

section \<open>Data model\<close>

text \<open>
  The two modules \<^verbatim>\<open>filelock.py\<close> and \<^verbatim>\<open>token_cache.py\<close> are
  embedded as state-passing functions. Everything the code calls but does not define
  (the \<^verbatim>\<open>time\<close> and \<^verbatim>\<open>os\<close> modules, the persistence backend, the
  in-memory cache of the parent class \<^verbatim>\<open>msal.SerializableTokenCache\<close>) is a
  parameter, collected in the record \<open>env\<close>. An operation of the outside world
  takes the world \<open>'w\<close> and returns a result together with the next world; an
  operation of the parent class does the same on the in-memory cache \<open>'c\<close>.
  A raised exception is the left summand of the result.
\<close>

type_synonym path = string
type_synonym bytes = string
type_synonym entry = "(string \<times> string) list"

text \<open>
  Exceptions. \<open>OSError n\<close> is an \<^verbatim>\<open>OSError\<close> the operating system raised with
  the errno \<open>n\<close>; Python 3 derives the subclass from the errno, so
  \<^verbatim>\<open>FileExistsError\<close> is \<open>OSError EEXIST\<close>. \<open>PersistenceNotFound\<close> is the
  backend's signal, a class of its own. \<open>BaseExn\<close> stands for the exceptions that
  are not subclasses of \<^verbatim>\<open>Exception\<close> (\<^verbatim>\<open>KeyboardInterrupt\<close>,
  \<^verbatim>\<open>SystemExit\<close>). Times are Python floats; they are modelled as reals, with
  exact addition and comparison.
\<close>

datatype exn =
    OSError int
  | ValueError
  | LockError string
  | PersistenceNotFound
  | OtherException string
  | BaseExn string

definition ENOENT :: int where "ENOENT = 2"
definition EACCES :: int where "EACCES = 13"
definition EEXIST :: int where "EEXIST = 17"

definition FileExistsError :: exn where
  "FileExistsError = OSError EEXIST"

fun is_Exception :: "exn \<Rightarrow> bool" where
  "is_Exception (BaseExn _) = False"
| "is_Exception _ = True"

text \<open>
  The calls the code makes to its collaborators, in the order it makes them.
  \<open>ECreate\<close> is the whole statement
  \<^verbatim>\<open>with open(path, 'xb') as lock_file: lock_file.write(content)\<close>, which the
  environment's \<open>open_xb_write\<close> performs; \<open>ESetLastSync\<close> is the assignment to
  \<^verbatim>\<open>self._last_sync\<close>.
\<close>

datatype event =
    EMonotonic real
  | ETime real
  | ESleep real
  | ECreate path bytes
  | ERemove path
  | ETimeLastModified
  | ELoad
  | ESave bytes
  | EDeserialize bytes
  | ESerialize
  | ECacheModify string entry "entry option"
  | ECacheFind string entry
  | ESetLastSync real

record ('w, 'c) env =
  has_monotonic :: bool
  time_monotonic :: "'w \<Rightarrow> real \<times> 'w"
  time_time :: "'w \<Rightarrow> real \<times> 'w"
  time_sleep :: "real \<Rightarrow> 'w \<Rightarrow> 'w"
  os_getpid :: nat
  sys_argv0 :: string
  open_xb_write :: "path \<Rightarrow> bytes \<Rightarrow> 'w \<Rightarrow> (exn + unit) \<times> 'w"
  os_remove :: "path \<Rightarrow> 'w \<Rightarrow> (exn + unit) \<times> 'w"
  os_path_expanduser :: "path \<Rightarrow> path"
  os_path_dirname :: "path \<Rightarrow> path"
  mkdir_p :: "path \<Rightarrow> 'w \<Rightarrow> (exn + unit) \<times> 'w"
  p_get_location :: path
  p_is_encrypted :: bool
  p_time_last_modified :: "'w \<Rightarrow> (exn + real) \<times> 'w"
  p_load :: "'w \<Rightarrow> (exn + bytes) \<times> 'w"
  p_save :: "bytes \<Rightarrow> 'w \<Rightarrow> (exn + unit) \<times> 'w"
  c_deserialize :: "bytes \<Rightarrow> 'c \<Rightarrow> (exn + unit) \<times> 'c"
  c_serialize :: "'c \<Rightarrow> (exn + bytes) \<times> 'c"
  c_modify :: "string \<Rightarrow> entry \<Rightarrow> entry option \<Rightarrow> 'c \<Rightarrow> (exn + unit) \<times> 'c"
  c_find :: "string \<Rightarrow> entry \<Rightarrow> 'c \<Rightarrow> (exn + entry list) \<times> 'c"

text \<open>
  A \<^verbatim>\<open>PersistedTokenCache\<close> object in its world: the fields the constructor
  sets, the parent class's state, the outside world, and the calls made so far.
\<close>

record ('w, 'c) pstate =
  world :: 'w
  cache :: 'c
  last_sync :: real
  lock_location :: path
  is_encrypted :: bool
  trace :: "event list"

definition call_w ::
  "event \<Rightarrow> ('w \<Rightarrow> (exn + 'a) \<times> 'w) \<Rightarrow> ('w, 'c) pstate \<Rightarrow> (exn + 'a) \<times> ('w, 'c) pstate" where
  "call_w ev f s =
     (case f (world s) of (r, w') \<Rightarrow> (r, s\<lparr>world := w', trace := trace s @ [ev]\<rparr>))"

definition call_c ::
  "event \<Rightarrow> ('c \<Rightarrow> (exn + 'a) \<times> 'c) \<Rightarrow> ('w, 'c) pstate \<Rightarrow> (exn + 'a) \<times> ('w, 'c) pstate" where
  "call_c ev f s =
     (case f (cache s) of (r, c') \<Rightarrow> (r, s\<lparr>cache := c', trace := trace s @ [ev]\<rparr>))"

definition now_time :: "('w, 'c) env \<Rightarrow> ('w, 'c) pstate \<Rightarrow> real \<times> ('w, 'c) pstate" where
  "now_time env s =
     (case time_time env (world s) of
        (t, w') \<Rightarrow> (t, s\<lparr>world := w', trace := trace s @ [ETime t]\<rparr>))"

definition now_monotonic :: "('w, 'c) env \<Rightarrow> ('w, 'c) pstate \<Rightarrow> real \<times> ('w, 'c) pstate" where
  "now_monotonic env s =
     (case time_monotonic env (world s) of
        (t, w') \<Rightarrow> (t, s\<lparr>world := w', trace := trace s @ [EMonotonic t]\<rparr>))"

definition sleep :: "('w, 'c) env \<Rightarrow> real \<Rightarrow> ('w, 'c) pstate \<Rightarrow> ('w, 'c) pstate" where
  "sleep env d s = s\<lparr>world := time_sleep env d (world s), trace := trace s @ [ESleep d]\<rparr>"

section \<open>filelock.py: CrossPlatLock\<close>

definition timeout :: real where "timeout = 5"
definition check_interval :: real where "check_interval = 0.25"

text \<open>\<^verbatim>\<open>current_time = getattr(time, "monotonic", time.time)\<close>\<close>

definition current_time :: "('w, 'c) env \<Rightarrow> ('w, 'c) pstate \<Rightarrow> real \<times> ('w, 'c) pstate" where
  "current_time env = (if has_monotonic env then now_monotonic env else now_time env)"

definition python2_message :: string where
  "python2_message = ''Python 2 does not support atomic creation of file''"

definition stale_message :: "path \<Rightarrow> string" where
  "stale_message lockpath =
     ''Unable to obtain lock, despite trying for 5 second(s). '' @
     ''You may want to manually remove the stale lock file '' @ lockpath"

text \<open>
  The \<^verbatim>\<open>while timeout_end > current_time()\<close> loop of
  \<^verbatim>\<open>_create_lock_file\<close>. Nothing in the code bounds the number of rounds, so the
  loop is a partial function: \<open>None\<close> is a loop that never ends.
\<close>

partial_function (option) create_lock_loop ::
  "('w, 'c) env \<Rightarrow> path \<Rightarrow> bytes \<Rightarrow> real \<Rightarrow> ('w, 'c) pstate
     \<Rightarrow> ((exn + unit) \<times> ('w, 'c) pstate) option" where
  "create_lock_loop env lockpath content timeout_end s =
     (case current_time env s of
        (now, s1) \<Rightarrow>
          if timeout_end > now then
            (case call_w (ECreate lockpath content) (open_xb_write env lockpath content) s1 of
               (Inr u, s2) \<Rightarrow> Some (Inr (), s2)
             | (Inl e, s2) \<Rightarrow>
                 if e = ValueError then Some (Inl (LockError python2_message), s2)
                 else if e = FileExistsError then
                   create_lock_loop env lockpath content timeout_end (sleep env check_interval s2)
                 else Some (Inl e, s2))
          else Some (Inl (LockError (stale_message lockpath)), s1))"

declare create_lock_loop.simps [code]

definition create_lock_file ::
  "('w, 'c) env \<Rightarrow> path \<Rightarrow> bytes \<Rightarrow> ('w, 'c) pstate
     \<Rightarrow> ((exn + unit) \<times> ('w, 'c) pstate) option" where
  "create_lock_file env lockpath content s =
     (case current_time env s of
        (t0, s1) \<Rightarrow> create_lock_loop env lockpath content (t0 + timeout) s1)"

text \<open>\<^verbatim>\<open>'{} {}'.format(os.getpid(), sys.argv[0]).encode('utf-8')\<close>\<close>

fun digit_char :: "nat \<Rightarrow> char" where
  "digit_char n = char_of (48 + n)"

fun str_nat :: "nat \<Rightarrow> string" where
  "str_nat n = (if n < 10 then [digit_char n] else str_nat (n div 10) @ [digit_char (n mod 10)])"

definition lock_content :: "('w, 'c) env \<Rightarrow> bytes" where
  "lock_content env = str_nat (os_getpid env) @ '' '' @ sys_argv0 env"

definition lock_enter ::
  "('w, 'c) env \<Rightarrow> path \<Rightarrow> ('w, 'c) pstate \<Rightarrow> ((exn + unit) \<times> ('w, 'c) pstate) option" where
  "lock_enter env lockpath s = create_lock_file env lockpath (lock_content env) s"

text \<open>\<^verbatim>\<open>__exit__\<close>: remove the lock file; swallow ENOENT and EACCES.\<close>

definition lock_exit ::
  "('w, 'c) env \<Rightarrow> path \<Rightarrow> ('w, 'c) pstate \<Rightarrow> (exn + unit) \<times> ('w, 'c) pstate" where
  "lock_exit env lockpath s =
     (case call_w (ERemove lockpath) (os_remove env lockpath) s of
        (Inr u, s1) \<Rightarrow> (Inr (), s1)
      | (Inl ex, s1) \<Rightarrow>
          (case ex of
             OSError n \<Rightarrow> if n = ENOENT \<or> n = EACCES then (Inr (), s1) else (Inl ex, s1)
           | _ \<Rightarrow> (Inl ex, s1)))"

section \<open>token_cache.py: PersistedTokenCache\<close>

text \<open>
  The constructor. \<^verbatim>\<open>lock_location\<close> is optional; \<^verbatim>\<open>None\<close> and the empty
  string are both false in the conditional expression.
\<close>

definition init ::
  "('w, 'c) env \<Rightarrow> path option \<Rightarrow> 'w \<Rightarrow> 'c \<Rightarrow> exn \<times> 'w + ('w, 'c) pstate" where
  "init env lock_loc w c0 =
     (let loc = (case lock_loc of
                   Some l \<Rightarrow> if l \<noteq> [] then os_path_expanduser env l
                             else p_get_location env @ ''.lockfile''
                 | None \<Rightarrow> p_get_location env @ ''.lockfile'')
      in case mkdir_p env (os_path_dirname env loc) w of
           (Inl e, w') \<Rightarrow> Inl (e, w')
         | (Inr u, w') \<Rightarrow>
             Inr \<lparr>world = w', cache = c0, last_sync = 0, lock_location = loc,
                  is_encrypted = p_is_encrypted env, trace = []\<rparr>)"

text \<open>The body of the \<^verbatim>\<open>try\<close> in \<^verbatim>\<open>_reload_if_necessary\<close>.\<close>

definition reload_try ::
  "('w, 'c) env \<Rightarrow> ('w, 'c) pstate \<Rightarrow> (exn + unit) \<times> ('w, 'c) pstate" where
  "reload_try env s =
     (case call_w ETimeLastModified (p_time_last_modified env) s of
        (Inl e, s1) \<Rightarrow> (Inl e, s1)
      | (Inr t, s1) \<Rightarrow>
          if last_sync s1 < t then
            (case call_w ELoad (p_load env) s1 of
               (Inl e, s2) \<Rightarrow> (Inl e, s2)
             | (Inr data, s2) \<Rightarrow>
                 (case call_c (EDeserialize data) (c_deserialize env data) s2 of
                    (Inl e, s3) \<Rightarrow> (Inl e, s3)
                  | (Inr u, s3) \<Rightarrow>
                      (case now_time env s3 of
                         (now, s4) \<Rightarrow>
                           (Inr (), s4\<lparr>last_sync := now,
                                        trace := trace s4 @ [ESetLastSync now]\<rparr>))))
          else (Inr (), s1))"

definition reload_if_necessary ::
  "('w, 'c) env \<Rightarrow> ('w, 'c) pstate \<Rightarrow> (exn + unit) \<times> ('w, 'c) pstate" where
  "reload_if_necessary env s =
     (case reload_try env s of
        (Inl e, s1) \<Rightarrow> if e = PersistenceNotFound then (Inr (), s1) else (Inl e, s1)
      | (Inr u, s1) \<Rightarrow> (Inr (), s1))"

text \<open>The statements of \<^verbatim>\<open>modify\<close> after the reload, inside the \<^verbatim>\<open>with\<close>.\<close>

definition modify_flush ::
  "('w, 'c) env \<Rightarrow> string \<Rightarrow> entry \<Rightarrow> entry option \<Rightarrow> ('w, 'c) pstate
     \<Rightarrow> (exn + unit) \<times> ('w, 'c) pstate" where
  "modify_flush env credential_type old_entry new_key_value_pairs s1 =
     (case call_c (ECacheModify credential_type old_entry new_key_value_pairs)
             (c_modify env credential_type old_entry new_key_value_pairs) s1 of
        (Inl e, s2) \<Rightarrow> (Inl e, s2)
      | (Inr u, s2) \<Rightarrow>
          (case call_c ESerialize (c_serialize env) s2 of
             (Inl e, s3) \<Rightarrow> (Inl e, s3)
           | (Inr data, s3) \<Rightarrow>
               (case call_w (ESave data) (p_save env data) s3 of
                  (Inl e, s4) \<Rightarrow> (Inl e, s4)
                | (Inr u, s4) \<Rightarrow>
                    (case now_time env s4 of
                       (now, s5) \<Rightarrow>
                         (Inr (), s5\<lparr>last_sync := now,
                                      trace := trace s5 @ [ESetLastSync now]\<rparr>)))))"

text \<open>The body of the \<^verbatim>\<open>with\<close> statement of \<^verbatim>\<open>modify\<close>.\<close>

definition modify_body ::
  "('w, 'c) env \<Rightarrow> string \<Rightarrow> entry \<Rightarrow> entry option \<Rightarrow> ('w, 'c) pstate
     \<Rightarrow> (exn + unit) \<times> ('w, 'c) pstate" where
  "modify_body env credential_type old_entry new_key_value_pairs s =
     (case reload_if_necessary env s of
        (Inl e, s1) \<Rightarrow> (Inl e, s1)
      | (Inr u, s1) \<Rightarrow> modify_flush env credential_type old_entry new_key_value_pairs s1)"

text \<open>
  \<^verbatim>\<open>with CrossPlatLock(self._lock_location): ...\<close>. The lock object keeps the
  path it was built with. When \<^verbatim>\<open>__enter__\<close> raises, neither the body nor
  \<^verbatim>\<open>__exit__\<close> runs. Otherwise \<^verbatim>\<open>__exit__\<close> runs after the body, whatever
  the body did; it returns \<^verbatim>\<open>None\<close>, so an exception of the body propagates,
  unless \<^verbatim>\<open>__exit__\<close> raises one itself. The lock is the one of
  \<^verbatim>\<open>filelock.py\<close>, the module \<^verbatim>\<open>token_cache.py\<close> falls back to.
\<close>

definition modify ::
  "('w, 'c) env \<Rightarrow> string \<Rightarrow> entry \<Rightarrow> entry option \<Rightarrow> ('w, 'c) pstate
     \<Rightarrow> ((exn + unit) \<times> ('w, 'c) pstate) option" where
  "modify env credential_type old_entry new_key_value_pairs s =
     (case lock_enter env (lock_location s) s of
        None \<Rightarrow> None
      | Some (Inl e, s1) \<Rightarrow> Some (Inl e, s1)
      | Some (Inr u, s1) \<Rightarrow>
          (case modify_body env credential_type old_entry new_key_value_pairs s1 of
             (r, s2) \<Rightarrow>
               (case lock_exit env (lock_location s) s2 of
                  (Inl e2, s3) \<Rightarrow> Some (Inl e2, s3)
                | (Inr u2, s3) \<Rightarrow> Some (r, s3))))"

text \<open>
  \<^verbatim>\<open>find\<close>. The two \<^verbatim>\<open>return\<close> statements are told apart: \<open>Delegated\<close> is
  the value of the parent class's \<^verbatim>\<open>find\<close>, \<open>Fallback\<close> the \<^verbatim>\<open>return []\<close>
  after the loop.
\<close>

datatype find_return = Delegated "entry list" | Fallback

definition retry :: nat where "retry = 3"

definition super_find ::
  "('w, 'c) env \<Rightarrow> string \<Rightarrow> entry \<Rightarrow> ('w, 'c) pstate
     \<Rightarrow> (exn + find_return) \<times> ('w, 'c) pstate" where
  "super_find env credential_type kwargs s =
     (case call_c (ECacheFind credential_type kwargs) (c_find env credential_type kwargs) s of
        (Inl e, s1) \<Rightarrow> (Inl e, s1)
      | (Inr r, s1) \<Rightarrow> (Inr (Delegated r), s1))"

fun find_attempts ::
  "('w, 'c) env \<Rightarrow> string \<Rightarrow> entry \<Rightarrow> nat list \<Rightarrow> ('w, 'c) pstate
     \<Rightarrow> (exn + find_return) \<times> ('w, 'c) pstate" where
  "find_attempts env credential_type kwargs [] s = (Inr Fallback, s)"
| "find_attempts env credential_type kwargs (attempt # rest) s =
     (case reload_if_necessary env s of
        (Inl e, s1) \<Rightarrow>
          if is_Exception e then
            (if attempt < retry then
               find_attempts env credential_type kwargs rest (sleep env 0.5 s1)
             else (Inl e, s1))
          else (Inl e, s1)
      | (Inr u, s1) \<Rightarrow> super_find env credential_type kwargs s1)"

definition find_tagged ::
  "('w, 'c) env \<Rightarrow> string \<Rightarrow> entry \<Rightarrow> ('w, 'c) pstate
     \<Rightarrow> (exn + find_return) \<times> ('w, 'c) pstate" where
  "find_tagged env credential_type kwargs s =
     find_attempts env credential_type kwargs [1 ..< retry + 1] s"

definition find_ptc ::
  "('w, 'c) env \<Rightarrow> string \<Rightarrow> entry \<Rightarrow> ('w, 'c) pstate
     \<Rightarrow> (exn + entry list) \<times> ('w, 'c) pstate" where
  "find_ptc env credential_type kwargs s =
     (case find_tagged env credential_type kwargs s of
        (Inl e, s1) \<Rightarrow> (Inl e, s1)
      | (Inr (Delegated r), s1) \<Rightarrow> (Inr r, s1)
      | (Inr Fallback, s1) \<Rightarrow> (Inr [], s1))"

section \<open>Observing a run\<close>

text \<open>The calls a step added to the trace.\<close>

definition new_events :: "('w, 'c) pstate \<Rightarrow> ('w, 'c) pstate \<Rightarrow> event list" where
  "new_events s s' = drop (length (trace s)) (trace s')"

text \<open>
  Every call of \<^verbatim>\<open>_reload_if_necessary\<close> starts with exactly one call of
  \<^verbatim>\<open>time_last_modified\<close>, and nothing else calls it: counting these calls counts
  the reload attempts.
\<close>

definition reload_attempts :: "event list \<Rightarrow> nat" where
  "reload_attempts evs = length (filter (\<lambda>e. e = ETimeLastModified) evs)"

fun is_sleep :: "event \<Rightarrow> bool" where
  "is_sleep (ESleep d) = True"
| "is_sleep _ = False"

text \<open>
  The clock \<^verbatim>\<open>_create_lock_file\<close> reads, at the level of the world, and the
  calls of one round of its loop that finds the file in place.
\<close>

definition clock_read :: "('w, 'c) env \<Rightarrow> 'w \<Rightarrow> real \<times> 'w" where
  "clock_read env = (if has_monotonic env then time_monotonic env else time_time env)"

definition clock_event :: "('w, 'c) env \<Rightarrow> real \<Rightarrow> event" where
  "clock_event env t = (if has_monotonic env then EMonotonic t else ETime t)"

definition round_events :: "('w, 'c) env \<Rightarrow> path \<Rightarrow> bytes \<Rightarrow> real \<Rightarrow> event list" where
  "round_events env lockpath content t =
     [clock_event env t, ECreate lockpath content, ESleep check_interval]"

text \<open>
  A stale lock file in the way of an acquisition: \<open>I\<close> holds of every world the
  acquisition passes through, and in such a world the creation fails because the file
  exists. \<open>T\<close> is the clock the loop reads: it never runs backwards, and a sleep of
  \<^verbatim>\<open>check_interval\<close> advances it by at least that much.
\<close>

definition stale_lock_world ::
  "('w, 'c) env \<Rightarrow> ('w \<Rightarrow> real) \<Rightarrow> ('w \<Rightarrow> bool) \<Rightarrow> path \<Rightarrow> bytes \<Rightarrow> bool" where
  "stale_lock_world env T I lockpath content \<longleftrightarrow>
     (\<forall>w. I w \<longrightarrow>
        fst (clock_read env w) = T w \<and> I (snd (clock_read env w)) \<and>
        T w \<le> T (snd (clock_read env w))) \<and>
     (\<forall>w. I w \<longrightarrow>
        fst (open_xb_write env lockpath content w) = Inl FileExistsError \<and>
        I (snd (open_xb_write env lockpath content w)) \<and>
        T w \<le> T (snd (open_xb_write env lockpath content w))) \<and>
     (\<forall>w. I w \<longrightarrow>
        I (time_sleep env check_interval w) \<and>
        T w + check_interval \<le> T (time_sleep env check_interval w))"

text \<open>
  What leaves the \<^verbatim>\<open>with\<close> statement of \<^verbatim>\<open>modify\<close>, from what its body did
  (\<open>r\<close>) and what \<^verbatim>\<open>os.remove\<close> did (\<open>rx\<close>): an exception of the removal
  that \<^verbatim>\<open>__exit__\<close> does not swallow replaces the body's outcome.
\<close>

definition with_exit_result :: "exn + unit \<Rightarrow> exn + unit \<Rightarrow> exn + unit" where
  "with_exit_result r rx =
     (case rx of
        Inr u \<Rightarrow> r
      | Inl ex \<Rightarrow> if ex = OSError ENOENT \<or> ex = OSError EACCES then r else Inl ex)"

text \<open>The calls each phase of \<^verbatim>\<open>modify\<close> may make.\<close>

fun is_lock_event :: "path \<Rightarrow> bytes \<Rightarrow> event \<Rightarrow> bool" where
  "is_lock_event p c (EMonotonic t) = True"
| "is_lock_event p c (ETime t) = True"
| "is_lock_event p c (ESleep d) = (d = check_interval)"
| "is_lock_event p c (ECreate p' c') = (p' = p \<and> c' = c)"
| "is_lock_event p c _ = False"


text \<open>
  What one step may do to \<^verbatim>\<open>last_sync\<close>: leave it, or set it to a reading of
  \<^verbatim>\<open>time.time()\<close> that it took.
\<close>

definition upd :: "('w, 'c) pstate \<Rightarrow> ('w, 'c) pstate \<Rightarrow> bool" where
  "upd s s' \<longleftrightarrow>
     lock_location s' = lock_location s \<and>
     (\<exists>N. trace s' = trace s @ N \<and>
          (last_sync s' = last_sync s \<or> ETime (last_sync s') \<in> set N))"

text \<open>
  A process's lifetime: any sequence of calls on the object. The caller may catch an
  exception and go on, so a run keeps the state and drops the results; a call that never
  returns ends the run.
\<close>

datatype call = CallFind string entry | CallModify string entry "entry option" | CallReload

definition exec :: "('w, 'c) env \<Rightarrow> call \<Rightarrow> ('w, 'c) pstate \<Rightarrow> ('w, 'c) pstate option" where
  "exec env cl s =
     (case cl of
        CallFind ct kw \<Rightarrow> Some (snd (find_ptc env ct kw s))
      | CallModify ct old new \<Rightarrow> map_option snd (modify env ct old new s)
      | CallReload \<Rightarrow> Some (snd (reload_if_necessary env s)))"

fun run :: "('w, 'c) env \<Rightarrow> call list \<Rightarrow> ('w, 'c) pstate \<Rightarrow> ('w, 'c) pstate option" where
  "run env [] s = Some s"
| "run env (cl # cls) s = (case exec env cl s of None \<Rightarrow> None | Some s' \<Rightarrow> run env cls s')"

definition wall_ok :: "('w, 'c) env \<Rightarrow> ('w \<Rightarrow> real) \<Rightarrow> bool" where
  "wall_ok env W \<longleftrightarrow>
     (\<forall>w. fst (time_time env w) = W w) \<and>
     (\<forall>w. W w \<le> W (snd (time_time env w))) \<and>
     (\<forall>w. W w \<le> W (snd (time_monotonic env w))) \<and>
     (\<forall>d w. 0 \<le> d \<longrightarrow> W w \<le> W (time_sleep env d w)) \<and>
     (\<forall>p c w. W w \<le> W (snd (open_xb_write env p c w))) \<and>
     (\<forall>p w. W w \<le> W (snd (os_remove env p w))) \<and>
     (\<forall>w. W w \<le> W (snd (p_time_last_modified env w))) \<and>
     (\<forall>w. W w \<le> W (snd (p_load env w))) \<and>
     (\<forall>d w. W w \<le> W (snd (p_save env d w)))"

definition adv :: "('w \<Rightarrow> real) \<Rightarrow> ('w, 'c) pstate \<Rightarrow> ('w, 'c) pstate \<Rightarrow> bool" where
  "adv W s s' \<longleftrightarrow>
     W (world s) \<le> W (world s') \<and>
     (last_sync s \<le> W (world s) \<longrightarrow>
        last_sync s \<le> last_sync s' \<and> last_sync s' \<le> W (world s'))"

section \<open>A concrete world\<close>

text \<open>
  A small world to run the code in: the monotonic clock and the wall clock, the lock
  files that exist, and the persisted blob with its modification time. The in-memory
  cache is the blob itself.
\<close>

record fsworld =
  clock :: real
  wall :: real
  files :: "path list"
  stored :: "(bytes \<times> real) option"

definition demo_env :: "(fsworld, bytes) env" where
  "demo_env =
     \<lparr>has_monotonic = True,
      time_monotonic = (\<lambda>w. (clock w, w)),
      time_time = (\<lambda>w. (wall w, w)),
      time_sleep = (\<lambda>d w. w\<lparr>clock := clock w + d, wall := wall w + d\<rparr>),
      os_getpid = 4242,
      sys_argv0 = ''app.py'',
      open_xb_write = (\<lambda>p c w. if p \<in> set (files w) then (Inl FileExistsError, w)
                                else (Inr (), w\<lparr>files := p # files w\<rparr>)),
      os_remove = (\<lambda>p w. if p \<in> set (files w) then (Inr (), w\<lparr>files := removeAll p (files w)\<rparr>)
                            else (Inl (OSError ENOENT), w)),
      os_path_expanduser = (\<lambda>p. p),
      os_path_dirname = (\<lambda>p. ''/tmp''),
      mkdir_p = (\<lambda>p w. (Inr (), w)),
      p_get_location = ''/tmp/cache.bin'',
      p_is_encrypted = False,
      p_time_last_modified = (\<lambda>w. case stored w of
                                     None \<Rightarrow> (Inl PersistenceNotFound, w)
                                   | Some (d, t) \<Rightarrow> (Inr t, w)),
      p_load = (\<lambda>w. case stored w of
                       None \<Rightarrow> (Inl PersistenceNotFound, w)
                     | Some (d, t) \<Rightarrow> (Inr d, w)),
      p_save = (\<lambda>d w. (Inr (), w\<lparr>stored := Some (d, wall w)\<rparr>)),
      c_deserialize = (\<lambda>d c. (Inr (), d)),
      c_serialize = (\<lambda>c. (Inr c, c)),
      c_modify = (\<lambda>ct old new c. (Inr (), c @ ct)),
      c_find = (\<lambda>ct kw c. (Inr [[(ct, c)]], c))\<rparr>"

definition demo_lock :: path where
  "demo_lock = ''/tmp/cache.bin.lockfile''"

definition demo_state :: "real \<Rightarrow> path list \<Rightarrow> (bytes \<times> real) option \<Rightarrow> real
     \<Rightarrow> (fsworld, bytes) pstate" where
  "demo_state t fs st ls =
     \<lparr>world = \<lparr>clock = t, wall = t, files = fs, stored = st\<rparr>, cache = ''old'',
      last_sync = ls,
      lock_location = demo_lock, is_encrypted = False, trace = []\<rparr>"

text \<open>The same world with a backend whose \<^verbatim>\<open>load\<close> always fails.\<close>

definition failing_load_env :: "(fsworld, bytes) env" where
  "failing_load_env = demo_env\<lparr>p_load := (\<lambda>w. (Inl (OtherException ''dirty read''), w))\<rparr>"

text \<open>The lock file is in place.\<close>

definition lock_file_present :: "fsworld \<Rightarrow> bool" where
  "lock_file_present w \<longleftrightarrow> demo_lock \<in> set (files w)"

text \<open>
  The process is stopped for five seconds right after it has read the monotonic clock
  at 100.
\<close>

definition stalled_env :: "(fsworld, bytes) env" where
  "stalled_env =
     demo_env\<lparr>time_monotonic :=
       (\<lambda>w. (clock w, if clock w = 100 then w\<lparr>clock := 105\<rparr> else w))\<rparr>"

text \<open>A backend whose \<^verbatim>\<open>save\<close> fails: no space left on the device.\<close>

definition failing_save_env :: "(fsworld, bytes) env" where
  "failing_save_env = demo_env\<lparr>p_save := (\<lambda>d w. (Inl (OSError 28), w))\<rparr>"

text \<open>The same backend, and a lock file that cannot be removed: the device is busy.\<close>

definition failing_save_busy_env :: "(fsworld, bytes) env" where
  "failing_save_busy_env = failing_save_env\<lparr>os_remove := (\<lambda>p w. (Inl (OSError 16), w))\<rparr>"

text \<open>The wall clock is set back from 100 to 90 right after it has been read at 100.\<close>

definition setback_env :: "(fsworld, bytes) env" where
  "setback_env =
     demo_env\<lparr>time_time :=
       (\<lambda>w. (wall w, if wall w = 100 then w\<lparr>wall := 90\<rparr> else w))\<rparr>"

section \<open>Frame and trace lemmas\<close>

lemmas demo_defs = demo_env_def demo_state_def demo_lock_def failing_load_env_def
  stalled_env_def failing_save_env_def failing_save_busy_env_def setback_env_def
  lock_file_present_def

lemma call_c_trace: "trace (snd (call_c ev f s)) = trace s @ [ev]"
  by (simp add: call_c_def split: prod.splits)

lemma sleep_trace: "trace (sleep env d s) = trace s @ [ESleep d]"
  by (simp add: sleep_def)

lemma reload_try_frame:
  "reload_try env s = (r, s') \<Longrightarrow>
     lock_location s' = lock_location s \<and> is_encrypted s' = is_encrypted s \<and>
     (\<exists>R. trace s' = trace s @ R \<and> reload_attempts R = 1 \<and> filter is_sleep R = [])"
  by (auto simp: reload_try_def call_w_def call_c_def now_time_def reload_attempts_def
           split: sum.splits prod.splits if_splits)

lemma reload_frame:
  "reload_if_necessary env s = (r, s') \<Longrightarrow>
     lock_location s' = lock_location s \<and> is_encrypted s' = is_encrypted s \<and>
     (\<exists>R. trace s' = trace s @ R \<and> reload_attempts R = 1 \<and> filter is_sleep R = [])"
  unfolding reload_if_necessary_def
  by (auto split: sum.splits prod.splits if_splits dest!: reload_try_frame)

lemma super_find_not_fallback: "fst (super_find env ct kw s) \<noteq> Inr Fallback"
  by (auto simp: super_find_def split: sum.splits prod.splits)

lemma attempts_list: "[1 ..< retry + 1] = [1, 2, 3]"
  by (simp add: retry_def upt_rec)

text \<open>The three rounds of the \<^verbatim>\<open>for\<close> loop of \<^verbatim>\<open>find\<close>, written out.\<close>

lemma find_tagged_unroll:
  assumes "reload_if_necessary env s = (r1, s1)"
    and "reload_if_necessary env (sleep env 0.5 s1) = (r2, s2)"
    and "reload_if_necessary env (sleep env 0.5 s2) = (r3, s3)"
  shows "find_tagged env ct kw s =
     (case r1 of Inr u \<Rightarrow> super_find env ct kw s1
      | Inl e1 \<Rightarrow> if \<not> is_Exception e1 then (Inl e1, s1) else
     (case r2 of Inr u \<Rightarrow> super_find env ct kw s2
      | Inl e2 \<Rightarrow> if \<not> is_Exception e2 then (Inl e2, s2) else
     (case r3 of Inr u \<Rightarrow> super_find env ct kw s3
      | Inl e3 \<Rightarrow> (Inl e3, s3))))"
  unfolding find_tagged_def attempts_list using assms
  by (simp add: retry_def split: sum.splits)

lemma find_ptc_unroll:
  assumes "reload_if_necessary env s = (r1, s1)"
    and "reload_if_necessary env (sleep env 0.5 s1) = (r2, s2)"
    and "reload_if_necessary env (sleep env 0.5 s2) = (r3, s3)"
  shows "find_ptc env ct kw s =
     (case r1 of Inr u \<Rightarrow> call_c (ECacheFind ct kw) (c_find env ct kw) s1
      | Inl e1 \<Rightarrow> if \<not> is_Exception e1 then (Inl e1, s1) else
     (case r2 of Inr u \<Rightarrow> call_c (ECacheFind ct kw) (c_find env ct kw) s2
      | Inl e2 \<Rightarrow> if \<not> is_Exception e2 then (Inl e2, s2) else
     (case r3 of Inr u \<Rightarrow> call_c (ECacheFind ct kw) (c_find env ct kw) s3
      | Inl e3 \<Rightarrow> (Inl e3, s3))))"
  unfolding find_ptc_def find_tagged_unroll [OF assms]
  by (auto simp: super_find_def call_c_def split: sum.splits prod.splits)

lemma find_ptc_events:
  "reload_attempts (new_events s (snd (find_ptc env ct kw s))) \<le> 3 \<and>
   (\<exists>k\<le>2. filter is_sleep (new_events s (snd (find_ptc env ct kw s))) = replicate k (ESleep 0.5))"
proof -
  obtain r1 s1 where a1: "reload_if_necessary env s = (r1, s1)" by force
  obtain r2 s2 where a2: "reload_if_necessary env (sleep env 0.5 s1) = (r2, s2)" by force
  obtain r3 s3 where a3: "reload_if_necessary env (sleep env 0.5 s2) = (r3, s3)" by force
  from reload_frame [OF a1] obtain R1 where
    t1: "trace s1 = trace s @ R1" "reload_attempts R1 = 1" "filter is_sleep R1 = []" by blast
  from reload_frame [OF a2] obtain R2 where
    t2: "trace s2 = trace (sleep env 0.5 s1) @ R2" "reload_attempts R2 = 1" "filter is_sleep R2 = []"
    by blast
  from reload_frame [OF a3] obtain R3 where
    t3: "trace s3 = trace (sleep env 0.5 s2) @ R3" "reload_attempts R3 = 1" "filter is_sleep R3 = []"
    by blast
  have k0: "\<exists>k\<le>(2::nat). [] = replicate k (ESleep 0.5)" by auto
  have k1: "\<exists>k\<le>(2::nat). [ESleep 0.5] = replicate k (ESleep 0.5)"
    by (rule exI [of _ 1]) simp
  have k2: "\<exists>k\<le>(2::nat). [ESleep 0.5, ESleep 0.5] = replicate k (ESleep 0.5)"
    by (rule exI [of _ 2]) (simp add: numeral_2_eq_2)
  show ?thesis
    unfolding find_ptc_unroll [OF a1 a2 a3]
    using t1 t2 t3 k0 k1 k2
    by (auto simp: new_events_def call_c_trace sleep_trace reload_attempts_def
             split: sum.splits)
qed

subsection \<open>The lock loop\<close>

lemma current_time_eq:
  "current_time env s =
     (fst (clock_read env (world s)),
      s\<lparr>world := snd (clock_read env (world s)),
        trace := trace s @ [clock_event env (fst (clock_read env (world s)))]\<rparr>)"
  by (simp add: current_time_def clock_read_def clock_event_def now_monotonic_def now_time_def
           split: prod.splits)

lemma round_events_fun:
  "round_events env p c = (\<lambda>t. [clock_event env t, ECreate p c, ESleep check_interval])"
  by (simp add: fun_eq_iff round_events_def)

lemma loop_times_out:
  assumes ok: "stale_lock_world env T I p c"
  shows "I (world s) \<Longrightarrow> tend - T (world s) \<le> real k * check_interval \<Longrightarrow>
     \<exists>ts tl s'. create_lock_loop env p c tend s = Some (Inl (LockError (stale_message p)), s')
        \<and> trace s' = trace s @ concat (map (round_events env p c) ts) @ [clock_event env tl]
        \<and> length ts \<le> k \<and> (\<forall>t\<in>set ts. t < tend) \<and> tend \<le> tl
        \<and> (ts \<noteq> [] \<longleftrightarrow> T (world s) < tend)
        \<and> cache s' = cache s \<and> last_sync s' = last_sync s \<and> lock_location s' = lock_location s"
proof (induction k arbitrary: s)
  case 0
  let ?w1 = "snd (clock_read env (world s))"
  let ?s1 = "s\<lparr>world := ?w1, trace := trace s @ [clock_event env (T (world s))]\<rparr>"
  have rd: "current_time env s = (T (world s), ?s1)"
    using ok "0.prems"(1) by (simp add: current_time_eq stale_lock_world_def)
  from "0.prems"(2) have "\<not> T (world s) < tend" by simp
  then show ?case
    using rd
    by (subst create_lock_loop.simps) (auto intro!: exI [of _ "[]"])
next
  case (Suc k)
  let ?w1 = "snd (clock_read env (world s))"
  let ?s1 = "s\<lparr>world := ?w1, trace := trace s @ [clock_event env (T (world s))]\<rparr>"
  have rd: "current_time env s = (T (world s), ?s1)"
    using ok Suc.prems(1) by (simp add: current_time_eq stale_lock_world_def)
  have i1: "I ?w1" and m1: "T (world s) \<le> T ?w1"
    using ok Suc.prems(1) by (simp_all add: stale_lock_world_def)
  show ?case
  proof (cases "T (world s) < tend")
    case False
    then show ?thesis
      using rd
      by (subst create_lock_loop.simps) (auto intro!: exI [of _ "[]"])
  next
    case True
    let ?w2 = "snd (open_xb_write env p c ?w1)"
    let ?s2 = "?s1\<lparr>world := ?w2, trace := trace ?s1 @ [ECreate p c]\<rparr>"
    let ?s3 = "sleep env check_interval ?s2"
    have f2: "fst (open_xb_write env p c ?w1) = Inl FileExistsError"
      and i2: "I ?w2" and m2: "T ?w1 \<le> T ?w2"
      using ok i1 by (simp_all add: stale_lock_world_def)
    have i3: "I (time_sleep env check_interval ?w2)"
      and m3: "T ?w2 + check_interval \<le> T (time_sleep env check_interval ?w2)"
      using ok i2 by (simp_all add: stale_lock_world_def)
    have cr: "call_w (ECreate p c) (open_xb_write env p c) ?s1 = (Inl FileExistsError, ?s2)"
      using f2 by (auto simp: call_w_def split: prod.splits)
    have step: "create_lock_loop env p c tend s = create_lock_loop env p c tend ?s3"
      using rd cr True
      by (subst create_lock_loop.simps) (simp add: FileExistsError_def)
    have "T (world s) + check_interval \<le> T (world ?s3)"
      using m1 m2 m3 by (simp add: sleep_def)
    with Suc.prems(2) have d: "tend - T (world ?s3) \<le> real k * check_interval"
      by (simp add: algebra_simps)
    have "I (world ?s3)" using i3 by (simp add: sleep_def)
    from Suc.IH [OF this d] obtain ts tl s' where
      r: "create_lock_loop env p c tend ?s3 = Some (Inl (LockError (stale_message p)), s')"
      and t: "trace s' = trace ?s3 @ concat (map (round_events env p c) ts) @ [clock_event env tl]"
      and l: "length ts \<le> k" "\<forall>t\<in>set ts. t < tend" "tend \<le> tl"
      and f: "cache s' = cache ?s3" "last_sync s' = last_sync ?s3" "lock_location s' = lock_location ?s3"
      by blast
    show ?thesis
      using r t l f True step
      by (intro exI [of _ "T (world s) # ts"] exI [of _ tl] exI [of _ s'])
         (simp add: round_events_fun sleep_def)
  qed
qed

subsection \<open>What a step does to the object\<close>

lemma upd_refl: "upd s s"
  by (simp add: upd_def)

lemma upd_trans: "upd s s1 \<Longrightarrow> upd s1 s2 \<Longrightarrow> upd s s2"
  by (auto simp: upd_def)

lemma upd_call_w: "call_w ev f s = (r, s') \<Longrightarrow> upd s s'"
  by (auto simp: upd_def call_w_def split: prod.splits)

lemma upd_call_c: "call_c ev f s = (r, s') \<Longrightarrow> upd s s'"
  by (auto simp: upd_def call_c_def split: prod.splits)

lemma upd_sleep: "upd s (sleep env d s)"
  by (simp add: upd_def sleep_def)

lemma upd_current_time: "current_time env s = (t, s') \<Longrightarrow> upd s s'"
  by (auto simp: upd_def current_time_eq)

lemma upd_reload_try: "reload_try env s = (r, s') \<Longrightarrow> upd s s'"
  by (auto simp: reload_try_def call_w_def call_c_def now_time_def upd_def
           split: sum.splits prod.splits if_splits)

lemma upd_reload: "reload_if_necessary env s = (r, s') \<Longrightarrow> upd s s'"
  by (auto simp: reload_if_necessary_def split: sum.splits prod.splits if_splits
           dest: upd_reload_try)

lemma upd_flush: "modify_flush env ct old new s = (r, s') \<Longrightarrow> upd s s'"
  by (auto simp: modify_flush_def call_w_def call_c_def now_time_def upd_def
           split: sum.splits prod.splits if_splits)

lemma upd_body: "modify_body env ct old new s = (r, s') \<Longrightarrow> upd s s'"
  by (auto simp: modify_body_def split: sum.splits prod.splits
           dest: upd_reload upd_flush intro: upd_trans)

lemma upd_lock_exit: "lock_exit env p s = (r, s') \<Longrightarrow> upd s s'"
  by (auto simp: lock_exit_def split: sum.splits prod.splits exn.splits if_splits
           dest: upd_call_w)

lemma create_lock_loop_frame:
  assumes "create_lock_loop env p c tend s = Some y"
  shows "cache (snd y) = cache s \<and> last_sync (snd y) = last_sync s \<and>
     lock_location (snd y) = lock_location s \<and>
     (\<exists>A. trace (snd y) = trace s @ A \<and> list_all (is_lock_event p c) A \<and>
          (fst y = Inr () \<longrightarrow> A \<noteq> [] \<and> last A = ECreate p c))"
  using assms
proof (induction rule: create_lock_loop.raw_induct [rotated 1, consumes 1, case_names step])
  case (step loop env p c tend s y)
  note 1 = step
  obtain w1 where w1: "w1 = snd (clock_read env (world s))" by simp
  let ?t = "fst (clock_read env (world s))"
  let ?s1 = "s\<lparr>world := w1, trace := trace s @ [clock_event env ?t]\<rparr>"
  have rd: "current_time env s = (?t, ?s1)" by (simp add: current_time_eq w1)
  have ce: "is_lock_event p c (clock_event env ?t)" by (simp add: clock_event_def)
  show ?case
  proof (cases "?t < tend")
    case False
    with 1(2) rd ce show ?thesis by auto
  next
    case True
    obtain r2 s2 where cr: "call_w (ECreate p c) (open_xb_write env p c) ?s1 = (r2, s2)" by force
    then have s2: "cache s2 = cache s" "last_sync s2 = last_sync s"
      "lock_location s2 = lock_location s"
      "trace s2 = trace s @ [clock_event env ?t, ECreate p c]"
      by (auto simp: call_w_def split: prod.splits)
    from 1(2) rd True cr have b:
      "(case r2 of
          Inl e \<Rightarrow> if e = ValueError then Some (Inl (LockError python2_message), s2)
                   else if e = FileExistsError
                     then loop env p c tend (sleep env check_interval s2)
                     else Some (Inl e, s2)
        | Inr u \<Rightarrow> Some (Inr (), s2)) = Some y"
      by simp
    show ?thesis
    proof (cases r2)
      case (Inr u)
      with b have "y = (Inr (), s2)" by simp
      with s2 ce show ?thesis by simp
    next
      case (Inl e)
      show ?thesis
      proof (cases "e \<noteq> ValueError \<and> e = FileExistsError")
        case False
        with b Inl have "y = (Inl (LockError python2_message), s2) \<or> y = (Inl e, s2)"
          by (auto split: if_splits)
        with s2 ce show ?thesis by auto
      next
        case t: True
        with b Inl
        have "loop env p c tend (sleep env check_interval s2) = Some y"
          by (simp add: FileExistsError_def)
        from 1(1) [OF this] s2 ce show ?thesis
          by (auto simp: sleep_def)
      qed
    qed
  qed
qed

lemma lock_enter_frame:
  assumes "lock_enter env p s = Some (r, s1)"
  shows "cache s1 = cache s \<and> last_sync s1 = last_sync s \<and> lock_location s1 = lock_location s \<and>
     (\<exists>A. trace s1 = trace s @ A \<and> list_all (is_lock_event p (lock_content env)) A \<and>
          (r = Inr () \<longrightarrow> A \<noteq> [] \<and> last A = ECreate p (lock_content env)))"
proof -
  let ?t = "fst (clock_read env (world s))"
  let ?s0 = "s\<lparr>world := snd (clock_read env (world s)), trace := trace s @ [clock_event env ?t]\<rparr>"
  have "create_lock_loop env p (lock_content env) (?t + timeout) ?s0 = Some (r, s1)"
    using assms by (simp add: lock_enter_def create_lock_file_def current_time_eq)
  from create_lock_loop_frame [OF this]
  show ?thesis by (auto simp: clock_event_def)
qed

lemma upd_lock_enter: "lock_enter env p s = Some (r, s1) \<Longrightarrow> upd s s1"
  by (auto simp: upd_def dest: lock_enter_frame)



lemma lock_exit_trace:
  "lock_exit env p s = (r, s') \<Longrightarrow>
     trace s' = trace s @ [ERemove p] \<and> last_sync s' = last_sync s \<and> cache s' = cache s"
  by (auto simp: lock_exit_def call_w_def split: sum.splits prod.splits exn.splits if_splits)


lemma flush_failure:
  "modify_flush env ct old new s = (Inl e, s') \<Longrightarrow> last_sync s' = last_sync s"
  by (auto simp: modify_flush_def call_c_def call_w_def now_time_def
           split: sum.splits prod.splits)

lemma reload_try_failure:
  "reload_try env s = (Inl e, s') \<Longrightarrow> last_sync s' = last_sync s"
  by (auto simp: reload_try_def call_c_def call_w_def now_time_def
           split: sum.splits prod.splits if_splits)

lemma reload_failure:
  "reload_if_necessary env s = (Inl e, s') \<Longrightarrow> last_sync s' = last_sync s"
  by (auto simp: reload_if_necessary_def split: sum.splits prod.splits if_splits
           dest: reload_try_failure)

subsection \<open>The wall clock and last_sync\<close>

lemma adv_refl: "adv W s s"
  by (simp add: adv_def)

lemma adv_trans: "adv W s s1 \<Longrightarrow> adv W s1 s2 \<Longrightarrow> adv W s s2"
  by (auto simp: adv_def)

lemma adv_call_w:
  "call_w ev f s = (r, s') \<Longrightarrow> \<forall>w. W w \<le> W (snd (f w)) \<Longrightarrow> adv W s s'"
  by (auto simp: adv_def call_w_def split: prod.splits dest: spec [of _ "world s"])

lemma adv_call_c: "call_c ev f s = (r, s') \<Longrightarrow> adv W s s'"
  by (auto simp: adv_def call_c_def split: prod.splits)

lemma adv_call_c_snd: "adv W s (snd (call_c ev f s))"
  by (cases "call_c ev f s") (auto dest: adv_call_c)

lemma upd_call_c_snd: "upd s (snd (call_c ev f s))"
  by (cases "call_c ev f s") (auto dest: upd_call_c)

lemma adv_sleep: "wall_ok env W \<Longrightarrow> 0 \<le> d \<Longrightarrow> adv W s (sleep env d s)"
  by (auto simp: adv_def sleep_def wall_ok_def intro: order_trans)

lemma adv_set_now:
  assumes "wall_ok env W" and "now_time env s = (now, s')"
  shows "adv W s (s'\<lparr>last_sync := now, trace := trace s' @ [ESetLastSync now]\<rparr>)"
proof -
  from assms(1) have "fst (time_time env (world s)) = W (world s)"
    and "W (world s) \<le> W (snd (time_time env (world s)))"
    by (simp_all add: wall_ok_def)
  with assms(2) show ?thesis
    by (auto simp: adv_def now_time_def split: prod.splits)
qed

lemma adv_current_time:
  assumes "wall_ok env W" and "current_time env s = (t, s')"
  shows "adv W s s'"
proof -
  from assms(1) have "W (world s) \<le> W (snd (time_time env (world s)))"
    and "W (world s) \<le> W (snd (time_monotonic env (world s)))"
    by (simp_all add: wall_ok_def)
  with assms(2) show ?thesis
    by (auto simp: adv_def current_time_def now_time_def now_monotonic_def
             split: prod.splits if_splits)
qed

lemma adv_reload_try:
  assumes ok: "wall_ok env W" and r: "reload_try env s = (r, s')"
  shows "adv W s s'"
proof -
  obtain r1 s1 where c1: "call_w ETimeLastModified (p_time_last_modified env) s = (r1, s1)"
    by force
  have a1: "adv W s s1" using adv_call_w [OF c1] ok by (simp add: wall_ok_def)
  show ?thesis
  proof (cases r1)
    case (Inl e)
    with r c1 have "s' = s1" by (simp add: reload_try_def)
    with a1 show ?thesis by simp
  next
    case (Inr t)
    show ?thesis
    proof (cases "last_sync s1 < t")
      case False
      with r c1 Inr have "s' = s1" by (simp add: reload_try_def)
      with a1 show ?thesis by simp
    next
      case True
      obtain r2 s2 where c2: "call_w ELoad (p_load env) s1 = (r2, s2)" by force
      have a2: "adv W s1 s2" using adv_call_w [OF c2] ok by (simp add: wall_ok_def)
      show ?thesis
      proof (cases r2)
        case (Inl e)
        with r c1 c2 Inr True have "s' = s2" by (simp add: reload_try_def)
        with a1 a2 show ?thesis by (auto intro: adv_trans)
      next
        case d: (Inr data)
        obtain r3 s3 where c3: "call_c (EDeserialize data) (c_deserialize env data) s2 = (r3, s3)"
          by force
        have a3: "adv W s2 s3" using adv_call_c [OF c3] .
        show ?thesis
        proof (cases r3)
          case (Inl e)
          with r c1 c2 c3 Inr True d have "s' = s3" by (simp add: reload_try_def)
          with a1 a2 a3 show ?thesis by (auto intro: adv_trans)
        next
          case u: (Inr u)
          obtain now s4 where c4: "now_time env s3 = (now, s4)" by force
          with r c1 c2 c3 Inr True d u
          have "s' = s4\<lparr>last_sync := now, trace := trace s4 @ [ESetLastSync now]\<rparr>"
            by (simp add: reload_try_def)
          with adv_set_now [OF ok c4] a1 a2 a3 show ?thesis by (auto intro: adv_trans)
        qed
      qed
    qed
  qed
qed

lemma adv_reload:
  "wall_ok env W \<Longrightarrow> reload_if_necessary env s = (r, s') \<Longrightarrow> adv W s s'"
  by (auto simp: reload_if_necessary_def split: sum.splits prod.splits if_splits
           dest: adv_reload_try)

lemma adv_flush:
  assumes ok: "wall_ok env W" and r: "modify_flush env ct old new s = (r, s')"
  shows "adv W s s'"
proof -
  obtain r1 s1 where c1: "call_c (ECacheModify ct old new) (c_modify env ct old new) s = (r1, s1)"
    by force
  have a1: "adv W s s1" using adv_call_c [OF c1] .
  show ?thesis
  proof (cases r1)
    case (Inl e)
    with r c1 have "s' = s1" by (simp add: modify_flush_def)
    with a1 show ?thesis by simp
  next
    case (Inr u)
    obtain r2 s2 where c2: "call_c ESerialize (c_serialize env) s1 = (r2, s2)" by force
    have a2: "adv W s1 s2" using adv_call_c [OF c2] .
    show ?thesis
    proof (cases r2)
      case (Inl e)
      with r c1 c2 Inr have "s' = s2" by (simp add: modify_flush_def)
      with a1 a2 show ?thesis by (auto intro: adv_trans)
    next
      case d: (Inr data)
      obtain r3 s3 where c3: "call_w (ESave data) (p_save env data) s2 = (r3, s3)" by force
      have a3: "adv W s2 s3" using adv_call_w [OF c3] ok by (simp add: wall_ok_def)
      show ?thesis
      proof (cases r3)
        case (Inl e)
        with r c1 c2 c3 Inr d have "s' = s3" by (simp add: modify_flush_def)
        with a1 a2 a3 show ?thesis by (auto intro: adv_trans)
      next
        case v: (Inr v)
        obtain now s4 where c4: "now_time env s3 = (now, s4)" by force
        with r c1 c2 c3 Inr d v
        have "s' = s4\<lparr>last_sync := now, trace := trace s4 @ [ESetLastSync now]\<rparr>"
          by (simp add: modify_flush_def)
        with adv_set_now [OF ok c4] a1 a2 a3 show ?thesis by (auto intro: adv_trans)
      qed
    qed
  qed
qed

lemma adv_body:
  "wall_ok env W \<Longrightarrow> modify_body env ct old new s = (r, s') \<Longrightarrow> adv W s s'"
  by (auto simp: modify_body_def split: sum.splits prod.splits
           dest: adv_reload adv_flush intro: adv_trans)

lemma adv_lock_exit:
  assumes "wall_ok env W" and "lock_exit env p s = (r, s')"
  shows "adv W s s'"
proof -
  obtain r1 s1 where c1: "call_w (ERemove p) (os_remove env p) s = (r1, s1)" by force
  have "adv W s s1" using adv_call_w [OF c1] assms(1) by (simp add: wall_ok_def)
  moreover have "s' = s1"
    using assms(2) c1 by (auto simp: lock_exit_def split: sum.splits exn.splits if_splits)
  ultimately show ?thesis by simp
qed

lemma adv_loop:
  assumes "create_lock_loop env p c tend s = Some y" and "wall_ok env W"
  shows "adv W s (snd y)"
  using assms
proof (induction rule: create_lock_loop.raw_induct [rotated 1, consumes 1, case_names step])
  case (step loop env p c tend s y)
  obtain t s1 where rd: "current_time env s = (t, s1)" by force
  have a1: "adv W s s1" using adv_current_time [OF step(3) rd] .
  show ?case
  proof (cases "t < tend")
    case False
    with step(2) rd have "snd y = s1" by auto
    with a1 show ?thesis by simp
  next
    case True
    obtain r2 s2 where cr: "call_w (ECreate p c) (open_xb_write env p c) s1 = (r2, s2)" by force
    have a2: "adv W s1 s2" using adv_call_w [OF cr] step(3) by (simp add: wall_ok_def)
    from step(2) rd True cr have b:
      "(case r2 of
          Inl e \<Rightarrow> if e = ValueError then Some (Inl (LockError python2_message), s2)
                   else if e = FileExistsError
                     then loop env p c tend (sleep env check_interval s2)
                     else Some (Inl e, s2)
        | Inr u \<Rightarrow> Some (Inr (), s2)) = Some y"
      by simp
    show ?thesis
    proof (cases "\<exists>e. r2 = Inl e \<and> e \<noteq> ValueError \<and> e = FileExistsError")
      case False
      with b have "snd y = s2" by (cases r2) (auto split: if_splits)
      with a1 a2 show ?thesis by (auto intro: adv_trans)
    next
      case t: True
      with b have again: "loop env p c tend (sleep env check_interval s2) = Some y"
        by (auto simp: FileExistsError_def)
      have "adv W s2 (sleep env check_interval s2)"
        by (rule adv_sleep [OF step(3)]) (simp add: check_interval_def)
      with step(1) [OF again step(3)] a1 a2
      show ?thesis by (blast intro: adv_trans)
    qed
  qed
qed

lemma adv_lock_enter:
  assumes "lock_enter env p s = Some (r, s1)" and "wall_ok env W"
  shows "adv W s s1"
proof -
  obtain t s0 where rd: "current_time env s = (t, s0)" by force
  with assms(1) have "create_lock_loop env p (lock_content env) (t + timeout) s0 = Some (r, s1)"
    by (simp add: lock_enter_def create_lock_file_def)
  from adv_loop [OF this assms(2)] adv_current_time [OF assms(2) rd]
  show ?thesis by (auto intro: adv_trans)
qed

lemma modify_cases:
  assumes "modify env ct old new s = Some (r, s')"
  shows "(\<exists>e. lock_enter env (lock_location s) s = Some (Inl e, s')) \<or>
     (\<exists>s1 rb s2 rx. lock_enter env (lock_location s) s = Some (Inr (), s1) \<and>
        modify_body env ct old new s1 = (rb, s2) \<and>
        lock_exit env (lock_location s) s2 = (rx, s'))"
  using assms
  by (auto simp: modify_def split: option.splits sum.splits prod.splits)

lemma adv_modify:
  assumes "modify env ct old new s = Some (r, s')" and ok: "wall_ok env W"
  shows "adv W s s'"
  using modify_cases [OF assms(1)]
proof (elim disjE exE conjE)
  fix e
  assume "lock_enter env (lock_location s) s = Some (Inl e, s')"
  from adv_lock_enter [OF this ok] show ?thesis .
next
  fix s1 rb s2 rx
  assume "lock_enter env (lock_location s) s = Some (Inr (), s1)"
    and "modify_body env ct old new s1 = (rb, s2)"
    and "lock_exit env (lock_location s) s2 = (rx, s')"
  then have "adv W s s1" "adv W s1 s2" "adv W s2 s'"
    using ok by (auto dest: adv_lock_enter adv_body adv_lock_exit)
  then show ?thesis by (blast intro: adv_trans)
qed

lemma upd_modify:
  assumes "modify env ct old new s = Some (r, s')"
  shows "upd s s'"
  using modify_cases [OF assms]
proof (elim disjE exE conjE)
  fix e
  assume "lock_enter env (lock_location s) s = Some (Inl e, s')"
  from upd_lock_enter [OF this] show ?thesis .
next
  fix s1 rb s2 rx
  assume "lock_enter env (lock_location s) s = Some (Inr (), s1)"
    and "modify_body env ct old new s1 = (rb, s2)"
    and "lock_exit env (lock_location s) s2 = (rx, s')"
  then have "upd s s1" "upd s1 s2" "upd s2 s'"
    by (auto dest: upd_lock_enter upd_body upd_lock_exit)
  then show ?thesis by (blast intro: upd_trans)
qed

lemma find_ptc_cases:
  "\<exists>r1 s1 r2 s2 r3 s3.
     reload_if_necessary env s = (r1, s1) \<and>
     reload_if_necessary env (sleep env 0.5 s1) = (r2, s2) \<and>
     reload_if_necessary env (sleep env 0.5 s2) = (r3, s3) \<and>
     (snd (find_ptc env ct kw s) = s1 \<or>
      snd (find_ptc env ct kw s) = snd (call_c (ECacheFind ct kw) (c_find env ct kw) s1) \<or>
      snd (find_ptc env ct kw s) = s2 \<or>
      snd (find_ptc env ct kw s) = snd (call_c (ECacheFind ct kw) (c_find env ct kw) s2) \<or>
      snd (find_ptc env ct kw s) = s3 \<or>
      snd (find_ptc env ct kw s) = snd (call_c (ECacheFind ct kw) (c_find env ct kw) s3))"
proof -
  obtain r1 s1 where a1: "reload_if_necessary env s = (r1, s1)" by force
  obtain r2 s2 where a2: "reload_if_necessary env (sleep env 0.5 s1) = (r2, s2)" by force
  obtain r3 s3 where a3: "reload_if_necessary env (sleep env 0.5 s2) = (r3, s3)" by force
  show ?thesis
    using a1 a2 a3 unfolding find_ptc_unroll [OF a1 a2 a3]
    by (auto split: sum.splits)
qed

lemma adv_find:
  assumes ok: "wall_ok env W"
  shows "adv W s (snd (find_ptc env ct kw s))"
proof -
  from find_ptc_cases [of env s ct kw] obtain r1 s1 r2 s2 r3 s3 where
    a1: "reload_if_necessary env s = (r1, s1)" and
    a2: "reload_if_necessary env (sleep env 0.5 s1) = (r2, s2)" and
    a3: "reload_if_necessary env (sleep env 0.5 s2) = (r3, s3)" and
    c: "snd (find_ptc env ct kw s) = s1 \<or>
      snd (find_ptc env ct kw s) = snd (call_c (ECacheFind ct kw) (c_find env ct kw) s1) \<or>
      snd (find_ptc env ct kw s) = s2 \<or>
      snd (find_ptc env ct kw s) = snd (call_c (ECacheFind ct kw) (c_find env ct kw) s2) \<or>
      snd (find_ptc env ct kw s) = s3 \<or>
      snd (find_ptc env ct kw s) = snd (call_c (ECacheFind ct kw) (c_find env ct kw) s3)"
    by blast
  have b1: "adv W s s1" using adv_reload [OF ok a1] .
  have b2: "adv W s s2"
    using b1 adv_sleep [OF ok, of "0.5" s1] adv_reload [OF ok a2] by (simp, blast intro: adv_trans)
  have b3: "adv W s s3"
    using b2 adv_sleep [OF ok, of "0.5" s2] adv_reload [OF ok a3] by (simp, blast intro: adv_trans)
  have cc: "\<And>x. adv W x (snd (call_c (ECacheFind ct kw) (c_find env ct kw) x))"
    by (rule adv_call_c_snd)
  have dd: "\<And>x. adv W s x \<Longrightarrow> adv W s (snd (call_c (ECacheFind ct kw) (c_find env ct kw) x))"
    using cc by (blast intro: adv_trans)
  from c show ?thesis
    by (elim disjE) (simp_all add: b1 b2 b3 dd)
qed

lemma upd_find: "upd s (snd (find_ptc env ct kw s))"
proof -
  from find_ptc_cases [of env s ct kw] obtain r1 s1 r2 s2 r3 s3 where
    a1: "reload_if_necessary env s = (r1, s1)" and
    a2: "reload_if_necessary env (sleep env 0.5 s1) = (r2, s2)" and
    a3: "reload_if_necessary env (sleep env 0.5 s2) = (r3, s3)" and
    c: "snd (find_ptc env ct kw s) = s1 \<or>
      snd (find_ptc env ct kw s) = snd (call_c (ECacheFind ct kw) (c_find env ct kw) s1) \<or>
      snd (find_ptc env ct kw s) = s2 \<or>
      snd (find_ptc env ct kw s) = snd (call_c (ECacheFind ct kw) (c_find env ct kw) s2) \<or>
      snd (find_ptc env ct kw s) = s3 \<or>
      snd (find_ptc env ct kw s) = snd (call_c (ECacheFind ct kw) (c_find env ct kw) s3)"
    by blast
  have b1: "upd s s1" using upd_reload [OF a1] .
  have b2: "upd s s2"
    using b1 upd_sleep [of s1 env "0.5"] upd_reload [OF a2] by (blast intro: upd_trans)
  have b3: "upd s s3"
    using b2 upd_sleep [of s2 env "0.5"] upd_reload [OF a3] by (blast intro: upd_trans)
  have cc: "\<And>x. upd x (snd (call_c (ECacheFind ct kw) (c_find env ct kw) x))"
    by (rule upd_call_c_snd)
  have dd: "\<And>x. upd s x \<Longrightarrow> upd s (snd (call_c (ECacheFind ct kw) (c_find env ct kw) x))"
    using cc by (blast intro: upd_trans)
  from c show ?thesis
    by (elim disjE) (simp_all add: b1 b2 b3 dd)
qed

lemma adv_exec: "wall_ok env W \<Longrightarrow> exec env cl s = Some s' \<Longrightarrow> adv W s s'"
  by (cases cl)
     (auto simp: exec_def dest: adv_modify
           intro: adv_find adv_reload [of env W s "fst (reload_if_necessary env s)"])

lemma upd_exec: "exec env cl s = Some s' \<Longrightarrow> upd s s'"
  by (cases cl)
     (auto simp: exec_def dest: upd_modify
           intro: upd_find upd_reload [of env s "fst (reload_if_necessary env s)"])

lemma adv_run: "wall_ok env W \<Longrightarrow> run env cls s = Some s' \<Longrightarrow> adv W s s'"
proof (induction cls arbitrary: s)
  case Nil
  then show ?case by (simp add: adv_refl)
next
  case (Cons cl cls)
  then show ?case
    by (auto split: option.splits dest: adv_exec intro: adv_trans)
qed

subsection \<open>The calls of the phases\<close>

lemma sleep_eq:
  "sleep env d s = s\<lparr>world := time_sleep env d (world s), trace := trace s @ [ESleep d]\<rparr>"
  by (simp add: sleep_def)

lemma reload_new_events:
  assumes "reload_if_necessary env s = (r, s')"
  shows "trace s' = trace s @ new_events s s'"
    and "reload_attempts (new_events s s') = 1"
    and "filter is_sleep (new_events s s') = []"
  using reload_frame [OF assms] by (auto simp: new_events_def)

lemma modify_after_body:
  assumes "lock_enter env (lock_location s) s = Some (Inr (), s1)"
    and "modify_body env ct old new s1 = (r, s2)"
    and "os_remove env (lock_location s) (world s2) = (rx, w')"
  shows "modify env ct old new s =
     Some (with_exit_result r rx,
           s2\<lparr>world := w', trace := trace s2 @ [ERemove (lock_location s)]\<rparr>)"
  using assms
  by (auto simp: modify_def lock_exit_def call_w_def with_exit_result_def
           split: sum.splits exn.splits)



subsection \<open>Running the code in the concrete world\<close>

lemmas run_defs = modify_def modify_body_def modify_flush_def reload_if_necessary_def reload_try_def
  lock_enter_def lock_exit_def create_lock_file_def create_lock_loop.simps current_time_def
  now_monotonic_def now_time_def call_w_def call_c_def timeout_def
  ENOENT_def EACCES_def EEXIST_def FileExistsError_def

lemma stale_lock_world_demo: "stale_lock_world demo_env clock lock_file_present demo_lock c"
  by (simp add: stale_lock_world_def clock_read_def check_interval_def demo_env_def
        lock_file_present_def FileExistsError_def)

lemma stale_lock_world_stalled: "stale_lock_world stalled_env clock lock_file_present demo_lock c"
  by (simp add: stale_lock_world_def clock_read_def check_interval_def demo_env_def stalled_env_def
        lock_file_present_def FileExistsError_def)

section \<open>The read path: find\<close>

text \<open>
  C3. A call of \<^verbatim>\<open>find\<close> makes at most three reload attempts, and between two
  attempts it sleeps 0.5 seconds. Name the outcome of the first attempt, of a second
  attempt made in the world that \<^verbatim>\<open>time.sleep(0.5)\<close> leaves after the first, and
  of a third made in the world that \<^verbatim>\<open>time.sleep(0.5)\<close> leaves after the second;
  name the outcome of the in-memory cache's lookup after each. Then:
  when the first attempt succeeds, the call returns the lookup's result after one reload
  attempt and no sleep;
  when it raises and the second succeeds, the call returns the lookup's result after two
  attempts and one sleep of 0.5;
  when two raise and the third succeeds, the call returns the lookup's result after three
  attempts and two sleeps of 0.5;
  when all three raise, the exception of the third reaches the caller, after three
  attempts and two sleeps of 0.5, in the state the third attempt left.
  An exception that is not an \<^verbatim>\<open>Exception\<close> ends the call at once.
\<close>

theorem find_retry_policy:
  assumes a1: "reload_if_necessary env s = (r1, s1)"
    and a2: "reload_if_necessary env
               (s1\<lparr>world := time_sleep env 0.5 (world s1), trace := trace s1 @ [ESleep 0.5]\<rparr>)
             = (r2, s2)"
    and a3: "reload_if_necessary env
               (s2\<lparr>world := time_sleep env 0.5 (world s2), trace := trace s2 @ [ESleep 0.5]\<rparr>)
             = (r3, s3)"
    and f1: "c_find env ct kw (cache s1) = (q1, c1)"
    and f2: "c_find env ct kw (cache s2) = (q2, c2)"
    and f3: "c_find env ct kw (cache s3) = (q3, c3)"
  shows "(r1 = Inr () \<longrightarrow>
            find_ptc env ct kw s = (q1, s1\<lparr>cache := c1, trace := trace s1 @ [ECacheFind ct kw]\<rparr>)
          \<and> reload_attempts (new_events s (snd (find_ptc env ct kw s))) = 1
          \<and> filter is_sleep (new_events s (snd (find_ptc env ct kw s))) = [])
       \<and> (\<forall>e1. r1 = Inl e1 \<and> \<not> is_Exception e1 \<longrightarrow>
            find_ptc env ct kw s = (Inl e1, s1))
       \<and> (\<forall>e1. r1 = Inl e1 \<and> is_Exception e1 \<and> r2 = Inr () \<longrightarrow>
            find_ptc env ct kw s = (q2, s2\<lparr>cache := c2, trace := trace s2 @ [ECacheFind ct kw]\<rparr>)
          \<and> reload_attempts (new_events s (snd (find_ptc env ct kw s))) = 2
          \<and> filter is_sleep (new_events s (snd (find_ptc env ct kw s))) = [ESleep 0.5])
       \<and> (\<forall>e1 e2. r1 = Inl e1 \<and> is_Exception e1 \<and> r2 = Inl e2 \<and> \<not> is_Exception e2 \<longrightarrow>
            find_ptc env ct kw s = (Inl e2, s2))
       \<and> (\<forall>e1 e2. r1 = Inl e1 \<and> is_Exception e1 \<and> r2 = Inl e2 \<and> is_Exception e2 \<and>
                  r3 = Inr () \<longrightarrow>
            find_ptc env ct kw s = (q3, s3\<lparr>cache := c3, trace := trace s3 @ [ECacheFind ct kw]\<rparr>)
          \<and> reload_attempts (new_events s (snd (find_ptc env ct kw s))) = 3
          \<and> filter is_sleep (new_events s (snd (find_ptc env ct kw s)))
              = [ESleep 0.5, ESleep 0.5])
       \<and> (\<forall>e1 e2 e3. r1 = Inl e1 \<and> is_Exception e1 \<and> r2 = Inl e2 \<and> is_Exception e2 \<and>
                  r3 = Inl e3 \<longrightarrow>
            find_ptc env ct kw s = (Inl e3, s3)
          \<and> reload_attempts (new_events s (snd (find_ptc env ct kw s))) = 3
          \<and> filter is_sleep (new_events s (snd (find_ptc env ct kw s)))
              = [ESleep 0.5, ESleep 0.5])"
proof -
  note b2 = a2 [folded sleep_eq] and b3 = a3 [folded sleep_eq]
  note u = find_ptc_unroll [OF a1 b2 b3, of ct kw]
  note t1 = reload_new_events [OF a1]
  note t2 = reload_new_events [OF a2]
  note t3 = reload_new_events [OF a3]
  have e2: "trace s2 = trace s @ new_events s s1 @ [ESleep 0.5] @ new_events
     (s1\<lparr>world := time_sleep env 0.5 (world s1), trace := trace s1 @ [ESleep 0.5]\<rparr>) s2"
    using t1(1) t2(1) by simp
  have e3: "trace s3 = trace s @ new_events s s1 @ [ESleep 0.5] @ new_events
     (s1\<lparr>world := time_sleep env 0.5 (world s1), trace := trace s1 @ [ESleep 0.5]\<rparr>) s2 @
     [ESleep 0.5] @ new_events
     (s2\<lparr>world := time_sleep env 0.5 (world s2), trace := trace s2 @ [ESleep 0.5]\<rparr>) s3"
    using e2 t3(1) by simp
  have k1: "reload_attempts (drop (length (trace s)) (trace s1 @ [ECacheFind ct kw])) = 1"
    "filter is_sleep (drop (length (trace s)) (trace s1 @ [ECacheFind ct kw])) = []"
    using t1 by (subst t1(1), simp add: reload_attempts_def)+
  have k2: "reload_attempts (drop (length (trace s)) (trace s2 @ [ECacheFind ct kw])) = 2"
    "filter is_sleep (drop (length (trace s)) (trace s2 @ [ECacheFind ct kw])) = [ESleep 0.5]"
    using t1(2,3) t2(2,3) by (subst e2, simp add: reload_attempts_def)+
  have k3: "reload_attempts (drop (length (trace s)) (trace s3 @ [ECacheFind ct kw])) = 3"
    "filter is_sleep (drop (length (trace s)) (trace s3 @ [ECacheFind ct kw]))
       = [ESleep 0.5, ESleep 0.5]"
    "reload_attempts (drop (length (trace s)) (trace s3)) = 3"
    "filter is_sleep (drop (length (trace s)) (trace s3)) = [ESleep 0.5, ESleep 0.5]"
    using t1(2,3) t2(2,3) t3(2,3) by (subst e3, simp add: reload_attempts_def)+
  show ?thesis
    unfolding u using f1 f2 f3 k1 k2 k3
    by (auto simp: call_c_def new_events_def)
qed

theorem find_retry_policy_witness:
  "fst (reload_if_necessary failing_load_env (demo_state 100 [] (Some (''new'', 50)) 0))
     = Inl (OtherException ''dirty read'')
   \<and> fst (find_ptc failing_load_env ''RefreshToken'' [] (demo_state 100 [] (Some (''new'', 50)) 0))
       = Inl (OtherException ''dirty read'')
   \<and> reload_attempts (new_events (demo_state 100 [] (Some (''new'', 50)) 0)
        (snd (find_ptc failing_load_env ''RefreshToken'' [] (demo_state 100 [] (Some (''new'', 50)) 0))))
       = 3
   \<and> filter is_sleep (new_events (demo_state 100 [] (Some (''new'', 50)) 0)
        (snd (find_ptc failing_load_env ''RefreshToken'' [] (demo_state 100 [] (Some (''new'', 50)) 0))))
       = [ESleep 0.5, ESleep 0.5]
   \<and> clock (world (snd (find_ptc failing_load_env ''RefreshToken'' []
        (demo_state 100 [] (Some (''new'', 50)) 0)))) = 101"
proof -
  let ?s = "demo_state 100 [] (Some (''new'', 50)) 0"
  let ?e = failing_load_env
  let ?x = "Inl (OtherException ''dirty read'') :: exn + unit"
  let ?s1 = "?s\<lparr>trace := [ETimeLastModified, ELoad]\<rparr>"
  let ?s2 = "?s\<lparr>world := \<lparr>clock = 100.5, wall = 100.5, files = [], stored = Some (''new'', 50)\<rparr>,
      trace := [ETimeLastModified, ELoad, ESleep 0.5, ETimeLastModified, ELoad]\<rparr>"
  let ?s3 = "?s\<lparr>world := \<lparr>clock = 101, wall = 101, files = [], stored = Some (''new'', 50)\<rparr>,
      trace := [ETimeLastModified, ELoad, ESleep 0.5, ETimeLastModified, ELoad,
                ESleep 0.5, ETimeLastModified, ELoad]\<rparr>"
  have a1: "reload_if_necessary ?e ?s = (?x, ?s1)"
    by (simp add: run_defs demo_defs)
  have a2: "reload_if_necessary ?e
      (?s1\<lparr>world := time_sleep ?e 0.5 (world ?s1), trace := trace ?s1 @ [ESleep 0.5]\<rparr>)
      = (?x, ?s2)"
    by (simp add: run_defs demo_defs)
  have a3: "reload_if_necessary ?e
      (?s2\<lparr>world := time_sleep ?e 0.5 (world ?s2), trace := trace ?s2 @ [ESleep 0.5]\<rparr>)
      = (?x, ?s3)"
    by (simp add: run_defs demo_defs)
  have f: "\<And>c. c_find ?e ''RefreshToken'' [] c = (Inr [[(''RefreshToken'', c)]], c)"
    by (simp add: demo_defs)
  have x: "is_Exception (OtherException ''dirty read'')" by simp
  from find_retry_policy [OF a1 a2 a3 f f f] x
  have p1: "find_ptc ?e ''RefreshToken'' [] ?s = (Inl (OtherException ''dirty read''), ?s3)"
    and p2: "reload_attempts (new_events ?s (snd (find_ptc ?e ''RefreshToken'' [] ?s))) = 3"
    and p3: "filter is_sleep (new_events ?s (snd (find_ptc ?e ''RefreshToken'' [] ?s)))
           = [ESleep 0.5, ESleep 0.5]"
    by blast+
  have p0: "fst (reload_if_necessary ?e ?s) = Inl (OtherException ''dirty read'')"
    by (simp add: a1)
  have p4: "fst (find_ptc ?e ''RefreshToken'' [] ?s) = Inl (OtherException ''dirty read'')"
    by (simp add: p1)
  have p5: "clock (world (snd (find_ptc ?e ''RefreshToken'' [] ?s))) = 101"
    by (simp add: p1)
  show ?thesis by (intro conjI p0 p4 p2 p3 p5)
qed

text \<open>
  C10. The \<^verbatim>\<open>return []\<close> after the loop is never taken: a call of
  \<^verbatim>\<open>find\<close> raises, or returns the value of the in-memory cache's lookup.
\<close>

theorem find_never_fallback:
  "fst (find_tagged env ct kw s) \<noteq> Inr Fallback \<and>
   ((\<exists>e. fst (find_ptc env ct kw s) = Inl e) \<or>
    (\<exists>r. fst (find_tagged env ct kw s) = Inr (Delegated r) \<and> fst (find_ptc env ct kw s) = Inr r))"
proof -
  obtain r1 s1 where a1: "reload_if_necessary env s = (r1, s1)" by force
  obtain r2 s2 where a2: "reload_if_necessary env (sleep env 0.5 s1) = (r2, s2)" by force
  obtain r3 s3 where a3: "reload_if_necessary env (sleep env 0.5 s2) = (r3, s3)" by force
  have nf: "fst (find_tagged env ct kw s) \<noteq> Inr Fallback"
    unfolding find_tagged_unroll [OF a1 a2 a3]
    by (auto split: sum.splits simp: super_find_not_fallback)
  then show ?thesis
    by (cases "find_tagged env ct kw s")
       (auto simp: find_ptc_def split: sum.splits find_return.splits)
qed

theorem find_never_fallback_witness:
  "fst (find_tagged demo_env ''RefreshToken'' [] (demo_state 100 [] (Some (''new'', 50)) 0))
     = Inr (Delegated [[(''RefreshToken'', ''new'')]])"
proof -
  have "fst (find_tagged demo_env ''RefreshToken'' [] (demo_state 100 [] (Some (''new'', 50)) 0))
     = Inr (Delegated [[(''RefreshToken'', ''new'')]])"
    unfolding find_tagged_def attempts_list
    by (simp add: reload_if_necessary_def reload_try_def call_w_def call_c_def
        now_time_def super_find_def demo_defs)
  with find_never_fallback [of demo_env "''RefreshToken''" "[]"
      "demo_state 100 [] (Some (''new'', 50)) 0"]
  show ?thesis by simp
qed

section \<open>Reloading\<close>



text \<open>
  C7. When the backend raises \<^verbatim>\<open>PersistenceNotFound\<close>, from
  \<^verbatim>\<open>time_last_modified\<close> or from \<^verbatim>\<open>load\<close>, the reload returns normally and
  leaves the in-memory cache and \<^verbatim>\<open>last_sync\<close> as they were. \<^verbatim>\<open>find\<close> then
  goes straight to the in-memory lookup, and \<^verbatim>\<open>modify\<close> goes on with the mutation
  and the save, so the signal reaches neither caller.
\<close>

theorem reload_not_found_is_noop:
  assumes "p_time_last_modified env (world s) = (Inl PersistenceNotFound, w1)
         \<or> (\<exists>t w0. p_time_last_modified env (world s) = (Inr t, w0) \<and> last_sync s < t \<and>
                    p_load env w0 = (Inl PersistenceNotFound, w1))"
  shows "fst (reload_if_necessary env s) = Inr ()
       \<and> cache (snd (reload_if_necessary env s)) = cache s
       \<and> last_sync (snd (reload_if_necessary env s)) = last_sync s
       \<and> world (snd (reload_if_necessary env s)) = w1
       \<and> find_ptc env ct kw s =
           call_c (ECacheFind ct kw) (c_find env ct kw) (snd (reload_if_necessary env s))
       \<and> modify_body env ct old new s =
           modify_flush env ct old new (snd (reload_if_necessary env s))"
proof -
  have r: "fst (reload_if_necessary env s) = Inr ()
       \<and> cache (snd (reload_if_necessary env s)) = cache s
       \<and> last_sync (snd (reload_if_necessary env s)) = last_sync s
       \<and> world (snd (reload_if_necessary env s)) = w1"
    using assms
    by (auto simp: reload_if_necessary_def reload_try_def call_w_def split: prod.splits sum.splits)
  obtain s1 where a1: "reload_if_necessary env s = (Inr (), s1)"
    using r by (cases "reload_if_necessary env s") auto
  obtain r2 s2 where a2: "reload_if_necessary env (sleep env 0.5 s1) = (r2, s2)" by force
  obtain r3 s3 where a3: "reload_if_necessary env (sleep env 0.5 s2) = (r3, s3)" by force
  have f: "find_ptc env ct kw s = call_c (ECacheFind ct kw) (c_find env ct kw) s1"
    unfolding find_ptc_unroll [OF a1 a2 a3] by simp
  have m: "modify_body env ct old new s = modify_flush env ct old new s1"
    by (simp add: modify_body_def a1)
  from r f m a1 show ?thesis by simp
qed

theorem reload_not_found_is_noop_witness:
  "p_time_last_modified demo_env (world (demo_state 100 [] None 0))
     = (Inl PersistenceNotFound, world (demo_state 100 [] None 0))
   \<and> fst (reload_if_necessary demo_env (demo_state 100 [] None 0)) = Inr ()
   \<and> cache (snd (reload_if_necessary demo_env (demo_state 100 [] None 0))) = ''old''
   \<and> last_sync (snd (reload_if_necessary demo_env (demo_state 100 [] None 0))) = 0
   \<and> fst (find_ptc demo_env ''RefreshToken'' [] (demo_state 100 [] None 0))
       = Inr [[(''RefreshToken'', ''old'')]]"
proof -
  let ?s = "demo_state 100 [] None 0"
  have h: "p_time_last_modified demo_env (world ?s) = (Inl PersistenceNotFound, world ?s)"
    by (simp add: demo_defs)
  note n = reload_not_found_is_noop [of demo_env ?s "world ?s", OF disjI1, OF h]
  have c: "cache ?s = ''old''" "last_sync ?s = 0" by (simp_all add: demo_state_def)
  have "fst (find_ptc demo_env ''RefreshToken'' [] ?s) = Inr [[(''RefreshToken'', ''old'')]]"
    using n [of "''RefreshToken''" "[]"] c
    by (simp add: call_c_def demo_env_def split: prod.splits)
  with n h c show ?thesis by simp
qed

section \<open>Releasing the lock\<close>

text \<open>
  C6. Releasing the lock calls \<^verbatim>\<open>os.remove\<close> on the lock file, once. When the
  removal succeeds, or fails with errno ENOENT or EACCES, the release returns normally;
  any other exception of the removal reaches the caller.
\<close>

theorem lock_exit_release:
  assumes "os_remove env lockpath (world s) = (r0, w')"
  shows "new_events s (snd (lock_exit env lockpath s)) = [ERemove lockpath]
       \<and> world (snd (lock_exit env lockpath s)) = w'
       \<and> (r0 = Inr () \<longrightarrow> fst (lock_exit env lockpath s) = Inr ())
       \<and> (r0 = Inl (OSError ENOENT) \<or> r0 = Inl (OSError EACCES)
            \<longrightarrow> fst (lock_exit env lockpath s) = Inr ())
       \<and> (\<forall>e. r0 = Inl e \<and> e \<noteq> OSError ENOENT \<and> e \<noteq> OSError EACCES
            \<longrightarrow> fst (lock_exit env lockpath s) = Inl e)"
  using assms
  by (auto simp: lock_exit_def call_w_def new_events_def split: sum.splits exn.splits)

theorem lock_exit_release_witness:
  "os_remove demo_env demo_lock (world (demo_state 100 [] None 0))
     = (Inl (OSError ENOENT), world (demo_state 100 [] None 0))
   \<and> fst (lock_exit demo_env demo_lock (demo_state 100 [] None 0)) = Inr ()
   \<and> new_events (demo_state 100 [] None 0)
        (snd (lock_exit demo_env demo_lock (demo_state 100 [] None 0))) = [ERemove demo_lock]"
proof -
  have h: "os_remove demo_env demo_lock (world (demo_state 100 [] None 0))
     = (Inl (OSError ENOENT), world (demo_state 100 [] None 0))"
    by (simp add: demo_defs)
  from lock_exit_release [OF h] h show ?thesis by simp
qed

section \<open>Acquiring the lock\<close>

text \<open>
  C5, as the code has it. Take an acquisition that starts in a world with a stale lock
  file, so that every creation attempt it makes finds the file in place, and a clock
  that never runs backwards and that a sleep of 0.25 seconds advances by at least 0.25
  seconds. Then \<^verbatim>\<open>_create_lock_file\<close> returns, by raising the
  \<^verbatim>\<open>LockError\<close> that suggests removing the stale lock file. Its calls are: one clock
  reading \<open>t0\<close>, which sets the deadline \<open>t0 + 5\<close>; then at most 20 rounds, each a
  clock reading before the deadline, a creation attempt and a sleep of 0.25 seconds; then
  one clock reading at or past the deadline. A creation attempt is made exactly when the
  world the first reading leaves is still before the deadline: the loop tests the
  deadline before it tries.
\<close>

theorem create_lock_file_times_out:
  assumes ok: "stale_lock_world env T I p c" and start: "I (world s)"
  shows "\<exists>ts tl s'.
       create_lock_file env p c s = Some (Inl (LockError (stale_message p)), s')
     \<and> new_events s s' =
         clock_event env (T (world s)) # concat (map (round_events env p c) ts) @ [clock_event env tl]
     \<and> length ts \<le> 20
     \<and> (\<forall>t\<in>set ts. t < T (world s) + timeout)
     \<and> T (world s) + timeout \<le> tl
     \<and> (ts \<noteq> [] \<longleftrightarrow> T (snd (clock_read env (world s))) < T (world s) + timeout)
     \<and> cache s' = cache s \<and> last_sync s' = last_sync s"
proof -
  let ?w1 = "snd (clock_read env (world s))"
  let ?s1 = "s\<lparr>world := ?w1, trace := trace s @ [clock_event env (T (world s))]\<rparr>"
  let ?tend = "T (world s) + timeout"
  have rd: "current_time env s = (T (world s), ?s1)"
    using ok start by (simp add: current_time_eq stale_lock_world_def)
  have i1: "I (world ?s1)" and "T (world s) \<le> T ?w1"
    using ok start by (simp_all add: stale_lock_world_def)
  then have "?tend - T (world ?s1) \<le> real 20 * check_interval"
    by (simp add: timeout_def check_interval_def)
  from loop_times_out [OF ok i1 this] obtain ts tl s' where
    r: "create_lock_loop env p c ?tend ?s1 = Some (Inl (LockError (stale_message p)), s')"
    and t: "trace s' = trace ?s1 @ concat (map (round_events env p c) ts) @ [clock_event env tl]"
    and l: "length ts \<le> 20" "\<forall>t\<in>set ts. t < ?tend" "?tend \<le> tl"
      "ts \<noteq> [] \<longleftrightarrow> T (world ?s1) < ?tend"
    and f: "cache s' = cache ?s1" "last_sync s' = last_sync ?s1"
    by blast
  show ?thesis
    using r t l f rd
    by (intro exI [of _ ts] exI [of _ tl] exI [of _ s'])
       (simp add: create_lock_file_def new_events_def)
qed

theorem create_lock_file_times_out_witness:
  "stale_lock_world demo_env clock lock_file_present demo_lock ''x'' \<and>
   lock_file_present (world (demo_state 100 [demo_lock] None 0)) \<and>
   (\<exists>(ts :: real list) s'.
      create_lock_file demo_env demo_lock ''x'' (demo_state 100 [demo_lock] None 0)
        = Some (Inl (LockError (stale_message demo_lock)), s')
      \<and> ts \<noteq> [] \<and> length ts \<le> 20 \<and> last_sync s' = 0)"
proof -
  let ?s = "demo_state 100 [demo_lock] None 0"
  have p: "lock_file_present (world ?s)"
    by (simp add: lock_file_present_def demo_state_def)
  have w: "clock (snd (clock_read demo_env (world ?s))) < clock (world ?s) + timeout"
    by (simp add: clock_read_def timeout_def demo_defs)
  have l: "last_sync ?s = 0" by (simp add: demo_state_def)
  have "\<exists>(ts :: real list) s'. create_lock_file demo_env demo_lock ''x'' ?s
        = Some (Inl (LockError (stale_message demo_lock)), s')
      \<and> ts \<noteq> [] \<and> length ts \<le> 20 \<and> last_sync s' = 0"
    using create_lock_file_times_out [OF stale_lock_world_demo p, of "''x''"]
  proof (elim exE conjE)
    fix ts :: "real list" and tl :: real and s' :: "(fsworld, bytes) pstate"
    assume c: "create_lock_file demo_env demo_lock ''x'' ?s
         = Some (Inl (LockError (stale_message demo_lock)), s')"
      and b: "length ts \<le> 20"
      and i: "(ts \<noteq> []) =
         (clock (snd (clock_read demo_env (world ?s))) < clock (world ?s) + timeout)"
      and z: "last_sync s' = last_sync ?s"
    from i w have n: "ts \<noteq> []" by (rule iffD2)
    from z l have z0: "last_sync s' = 0" by (rule trans)
    from c n b z0
    have "create_lock_file demo_env demo_lock ''x'' ?s
         = Some (Inl (LockError (stale_message demo_lock)), s')
       \<and> ts \<noteq> [] \<and> length ts \<le> 20 \<and> last_sync s' = 0"
      by simp
    then show ?thesis
      by - (rule exI [of _ ts], rule exI [of _ s'], assumption)
  qed
  with stale_lock_world_demo [of "''x''"] p show ?thesis by simp
qed

text \<open>
  C5, as stated, fails: with the stale lock file in place, when the process is stopped
  for five seconds between computing the deadline and the first test of the loop,
  \<^verbatim>\<open>LockError\<close> is raised and no creation attempt has been made.
\<close>

theorem create_lock_file_no_attempt:
  "stale_lock_world stalled_env clock lock_file_present demo_lock ''x'' \<and>
   lock_file_present (world (demo_state 100 [demo_lock] None 0)) \<and>
   create_lock_file stalled_env demo_lock ''x'' (demo_state 100 [demo_lock] None 0) =
     Some (Inl (LockError (stale_message demo_lock)),
           (demo_state 100 [demo_lock] None 0)
             \<lparr>world := \<lparr>clock = 105, wall = 100, files = [demo_lock], stored = None\<rparr>,
              trace := [EMonotonic 100, EMonotonic 105]\<rparr>)"
proof -
  have p: "lock_file_present (world (demo_state 100 [demo_lock] None 0))"
    by (simp add: lock_file_present_def demo_state_def)
  have c: "create_lock_file stalled_env demo_lock ''x'' (demo_state 100 [demo_lock] None 0) =
     Some (Inl (LockError (stale_message demo_lock)),
           (demo_state 100 [demo_lock] None 0)
             \<lparr>world := \<lparr>clock = 105, wall = 100, files = [demo_lock], stored = None\<rparr>,
              trace := [EMonotonic 100, EMonotonic 105]\<rparr>)"
    by (simp add: create_lock_file_def create_lock_loop.simps current_time_def now_monotonic_def
          timeout_def demo_env_def stalled_env_def demo_state_def)
  from stale_lock_world_stalled [of "''x''"] p c show ?thesis by simp
qed

section \<open>The write path: modify\<close>



text \<open>
  C9, as the code has it. When the lock is held and the reload, the mutation, the
  serialization or the save raises, the removal of the lock file is the last call of
  \<^verbatim>\<open>modify\<close>, made in the world the failed body left. When the removal returns,
  or fails with ENOENT or EACCES, the exception of the body reaches the caller; another
  exception of the removal reaches the caller in its place. The assignment of
  \<^verbatim>\<open>modify\<close> to \<^verbatim>\<open>last_sync\<close> is skipped: \<^verbatim>\<open>last_sync\<close> is what the
  reload left, that is the old value, or the time of a reload that succeeded before the
  later step raised. It is the old value whenever the reload itself raised.
\<close>

theorem modify_failure:
  assumes enter: "lock_enter env (lock_location s) s = Some (Inr (), s1)"
    and body: "modify_body env ct old new s1 = (Inl e, s2)"
    and rem: "os_remove env (lock_location s) (world s2) = (rx, w')"
  shows "(rx = Inr () \<or> rx = Inl (OSError ENOENT) \<or> rx = Inl (OSError EACCES) \<longrightarrow>
            modify env ct old new s =
              Some (Inl e, s2\<lparr>world := w',
                              trace := trace s2 @ [ERemove (lock_location s)]\<rparr>))
       \<and> (\<forall>ex. rx = Inl ex \<and> ex \<noteq> OSError ENOENT \<and> ex \<noteq> OSError EACCES \<longrightarrow>
            modify env ct old new s =
              Some (Inl ex, s2\<lparr>world := w',
                               trace := trace s2 @ [ERemove (lock_location s)]\<rparr>))
       \<and> last_sync s2 = last_sync (snd (reload_if_necessary env s1))
       \<and> (last_sync s2 = last_sync s \<or>
            ETime (last_sync s2) \<in> set (new_events s1 (snd (reload_if_necessary env s1))))
       \<and> ((\<exists>e0. fst (reload_if_necessary env s1) = Inl e0) \<longrightarrow> last_sync s2 = last_sync s)"
proof -
  obtain rr sr where rl: "reload_if_necessary env s1 = (rr, sr)" by force
  have l1: "last_sync s1 = last_sync s"
    using lock_enter_frame [OF enter] by auto
  have ls2: "last_sync s2 = last_sync sr"
    using body rl by (auto simp: modify_body_def split: sum.splits dest: flush_failure)
  have u: "last_sync sr = last_sync s1 \<or> ETime (last_sync sr) \<in> set (new_events s1 sr)"
    using upd_reload [OF rl] by (auto simp: upd_def new_events_def)
  have f: "(\<exists>e0. rr = Inl e0) \<longrightarrow> last_sync sr = last_sync s1"
    using rl by (auto dest: reload_failure)
  note m = modify_after_body [OF enter body rem]
  have m1: "rx = Inr () \<or> rx = Inl (OSError ENOENT) \<or> rx = Inl (OSError EACCES) \<longrightarrow>
      modify env ct old new s =
        Some (Inl e, s2\<lparr>world := w', trace := trace s2 @ [ERemove (lock_location s)]\<rparr>)"
    using m by (auto simp: with_exit_result_def)
  have m2: "\<forall>ex. rx = Inl ex \<and> ex \<noteq> OSError ENOENT \<and> ex \<noteq> OSError EACCES \<longrightarrow>
      modify env ct old new s =
        Some (Inl ex, s2\<lparr>world := w', trace := trace s2 @ [ERemove (lock_location s)]\<rparr>)"
    using m by (auto simp: with_exit_result_def)
  from m1 m2 ls2 u f l1 rl show ?thesis by simp
qed

theorem modify_failure_witness:
  "lock_enter failing_save_env demo_lock (demo_state 100 [] (Some (''new'', 50)) 0) =
     Some (Inr (),
       \<lparr>world = \<lparr>clock = 100, wall = 100, files = [demo_lock], stored = Some (''new'', 50)\<rparr>,
        cache = ''old'', last_sync = 0, lock_location = demo_lock, is_encrypted = False,
        trace = [EMonotonic 100, EMonotonic 100,
                 ECreate demo_lock (lock_content failing_save_env)]\<rparr>)
   \<and> modify failing_save_env ''RefreshToken'' [] None (demo_state 100 [] (Some (''new'', 50)) 0) =
     Some (Inl (OSError 28),
       \<lparr>world = \<lparr>clock = 100, wall = 100, files = [], stored = Some (''new'', 50)\<rparr>,
        cache = ''newRefreshToken'', last_sync = 100, lock_location = demo_lock,
        is_encrypted = False,
        trace = [EMonotonic 100, EMonotonic 100,
                 ECreate demo_lock (lock_content failing_save_env),
                 ETimeLastModified, ELoad, EDeserialize ''new'', ETime 100, ESetLastSync 100,
                 ECacheModify ''RefreshToken'' [] None, ESerialize, ESave ''newRefreshToken'',
                 ERemove demo_lock]\<rparr>)"
proof -
  let ?s = "demo_state 100 [] (Some (''new'', 50)) 0"
  let ?w1 = "\<lparr>clock = 100, wall = 100, files = [demo_lock], stored = Some (''new'', 50)\<rparr>"
  let ?s1 = "\<lparr>world = ?w1, cache = ''old'', last_sync = 0, lock_location = demo_lock,
        is_encrypted = False,
        trace = [EMonotonic 100, EMonotonic 100,
                 ECreate demo_lock (lock_content failing_save_env)]\<rparr>"
  let ?s2 = "?s1\<lparr>cache := ''newRefreshToken'', last_sync := 100,
        trace := trace ?s1 @ [ETimeLastModified, ELoad, EDeserialize ''new'', ETime 100,
                              ESetLastSync 100, ECacheModify ''RefreshToken'' [] None,
                              ESerialize, ESave ''newRefreshToken'']\<rparr>"
  have ll: "lock_location ?s = demo_lock" by (simp add: demo_state_def)
  have e: "lock_enter failing_save_env (lock_location ?s) ?s = Some (Inr (), ?s1)"
    by (simp add: run_defs demo_env_def failing_save_env_def demo_state_def demo_lock_def)
  have b: "modify_body failing_save_env ''RefreshToken'' [] None ?s1 = (Inl (OSError 28), ?s2)"
    by (simp add: run_defs demo_env_def failing_save_env_def)
  have x: "os_remove failing_save_env (lock_location ?s) (world ?s2)
      = (Inr (), ?w1\<lparr>files := []\<rparr>)"
    by (simp add: demo_env_def failing_save_env_def demo_state_def)
  from modify_failure [OF e b x]
  have "modify failing_save_env ''RefreshToken'' [] None ?s =
      Some (Inl (OSError 28),
            ?s2\<lparr>world := ?w1\<lparr>files := []\<rparr>, trace := trace ?s2 @ [ERemove (lock_location ?s)]\<rparr>)"
    by blast
  with e ll show ?thesis by simp
qed

text \<open>
  C9, as stated, fails twice. The backend is newer, so the reload succeeds and sets
  \<^verbatim>\<open>last_sync\<close> to 100; the save then raises, and \<^verbatim>\<open>last_sync\<close> is no longer
  the 0 it was before the call. And when the removal of the lock file raises as well,
  with an errno that \<^verbatim>\<open>__exit__\<close> does not swallow, it is the exception of the
  removal that reaches the caller, not the one of the save.
\<close>

theorem modify_failure_moves_last_sync:
  "last_sync (demo_state 100 [] (Some (''new'', 50)) 0) = 0
   \<and> map_option fst
       (modify failing_save_env ''RefreshToken'' [] None (demo_state 100 [] (Some (''new'', 50)) 0))
       = Some (Inl (OSError 28))
   \<and> map_option (last_sync \<circ> snd)
       (modify failing_save_env ''RefreshToken'' [] None (demo_state 100 [] (Some (''new'', 50)) 0))
       = Some 100
   \<and> map_option fst
       (modify failing_save_busy_env ''RefreshToken'' [] None
          (demo_state 100 [] (Some (''new'', 50)) 0))
       = Some (Inl (OSError 16))"
  by (simp add: run_defs demo_env_def failing_save_env_def failing_save_busy_env_def
        demo_state_def demo_lock_def)

section \<open>The invariant of last_sync\<close>

text \<open>
  C8, as the code has it. The constructor sets \<^verbatim>\<open>last_sync\<close> to 0. Each of
  \<^verbatim>\<open>find\<close>, \<^verbatim>\<open>modify\<close> and \<^verbatim>\<open>_reload_if_necessary\<close> leaves it as it
  was or sets it to a reading of \<^verbatim>\<open>time.time()\<close> taken during the call. So, when
  the wall clock never runs backwards and \<^verbatim>\<open>last_sync\<close> is not ahead of it,
  \<^verbatim>\<open>last_sync\<close> does not decrease over any sequence of calls, and stays not ahead
  of the clock.
\<close>

theorem last_sync_monotone:
  "(\<forall>lo w c0 s0. init env lo w c0 = Inr s0 \<longrightarrow> last_sync s0 = 0)
   \<and> (\<forall>cl s s'. exec env cl s = Some s' \<longrightarrow>
         last_sync s' = last_sync s \<or> ETime (last_sync s') \<in> set (new_events s s'))
   \<and> (\<forall>W cls s s'. wall_ok env W \<and> last_sync s \<le> W (world s) \<and> run env cls s = Some s' \<longrightarrow>
         last_sync s \<le> last_sync s' \<and> last_sync s' \<le> W (world s'))"
proof (intro conjI allI impI)
  fix lo w c0 s0
  assume "init env lo w c0 = Inr s0"
  then show "last_sync s0 = 0"
    by (auto simp: init_def Let_def split: prod.splits sum.splits)
next
  fix cl s s'
  assume "exec env cl s = Some s'"
  from upd_exec [OF this]
  show "last_sync s' = last_sync s \<or> ETime (last_sync s') \<in> set (new_events s s')"
    by (auto simp: upd_def new_events_def)
next
  fix W cls s s'
  assume h: "wall_ok env W \<and> last_sync s \<le> W (world s) \<and> run env cls s = Some s'"
  then have "adv W s s'" by (auto intro: adv_run)
  with h show "last_sync s \<le> last_sync s'" "last_sync s' \<le> W (world s')"
    by (auto simp: adv_def)
qed

lemma wall_ok_demo: "wall_ok demo_env wall"
  by (simp add: wall_ok_def demo_env_def split: option.splits prod.splits)

theorem last_sync_monotone_witness:
  "wall_ok demo_env wall \<and>
   (\<exists>s'. run demo_env [CallModify ''RefreshToken'' [] None, CallFind ''RefreshToken'' []]
            (demo_state 100 [] (Some (''new'', 50)) 0) = Some s'
      \<and> last_sync (demo_state 100 [] (Some (''new'', 50)) 0) \<le> last_sync s'
      \<and> last_sync s' \<le> wall (world s'))"
proof -
  let ?s = "demo_state 100 [] (Some (''new'', 50)) 0"
  let ?cls = "[CallModify ''RefreshToken'' [] None, CallFind ''RefreshToken'' []]"
  have "\<not> Option.is_none (run demo_env ?cls ?s)" by code_simp
  then obtain s' where r: "run demo_env ?cls ?s = Some s'"
    by (auto simp: Option.is_none_def)
  have i: "last_sync ?s \<le> wall (world ?s)" by (simp add: demo_state_def)
  from last_sync_monotone [of demo_env] wall_ok_demo i r
  have "last_sync ?s \<le> last_sync s' \<and> last_sync s' \<le> wall (world s')" by blast
  with wall_ok_demo r show ?thesis by blast
qed

text \<open>
  C8, as stated, fails: nothing in the code keeps \<^verbatim>\<open>last_sync\<close> from decreasing when
  the wall clock is set back. After construction a first \<^verbatim>\<open>modify\<close> sets it to 100,
  the clock is set back to 90, and a second \<^verbatim>\<open>modify\<close> sets it to 90.
\<close>

theorem last_sync_set_back:
  "init setback_env None (world (demo_state 100 [] None 0)) ''old'' = Inr (demo_state 100 [] None 0)
   \<and> map_option last_sync
       (run setback_env [CallModify ''RefreshToken'' [] None] (demo_state 100 [] None 0))
       = Some 100
   \<and> map_option last_sync
       (run setback_env [CallModify ''RefreshToken'' [] None, CallModify ''RefreshToken'' [] None]
          (demo_state 100 [] None 0))
       = Some 90"
  by code_simp

end
